theory Spec2Isabelle
  imports Main "HOL-Library.AList"
begin

section \<open>Python strings and integers\<close>

text \<open>
  Python \<open>str\<close> values are modelled as \<open>string\<close>, Python \<open>int\<close> values as \<open>int\<close>.
  \<open>str_of_int\<close> is the decimal rendering that \<open>"%s" % n\<close> and \<open>str(n)\<close> produce for an
  integer \<open>n\<close>.
\<close>

definition digit_char :: "nat \<Rightarrow> char" where
  "digit_char n = ''0123456789'' ! (n mod 10)"

fun str_of_nat :: "nat \<Rightarrow> string" where
  "str_of_nat n = (if n < 10 then [digit_char n] else str_of_nat (n div 10) @ [digit_char n])"

definition str_of_int :: "int \<Rightarrow> string" where
  "str_of_int i = (if i < 0 then CHR ''-'' # str_of_nat (nat (- i)) else str_of_nat (nat i))"

text \<open>The exceptions that the modelled code can raise.\<close>

datatype py_error =
    AttributeError
  | KeyError
  | ValueError
  | OverflowError
  | DoesNotExist
  | MultipleObjectsReturned
  | IntegrityError
  | UnboundLocalError
  | Diverges  \<comment> \<open>not an exception: a loop that has not ended within its fuel\<close>

text \<open>
  \<open>s.startswith(p)\<close>, \<open>p in s\<close> and \<open>s.replace(p, "")\<close> for a non-empty \<open>p\<close>:
  \<open>replace\<close> scans from the left and removes non-overlapping occurrences.
\<close>

definition startswith :: "string \<Rightarrow> string \<Rightarrow> bool" where
  "startswith s p = (take (length p) s = p)"

fun contains :: "string \<Rightarrow> string \<Rightarrow> bool" where
  "contains [] p = (p = [])"
| "contains (c # cs) p = (startswith (c # cs) p \<or> contains cs p)"

function py_remove :: "string \<Rightarrow> string \<Rightarrow> string" where
  "py_remove p [] = []"
| "py_remove p (c # cs) =
     (if p \<noteq> [] \<and> startswith (c # cs) p then py_remove p (drop (length p) (c # cs))
      else c # py_remove p cs)"
  by pat_completeness auto
termination
  by (relation "measure (\<lambda>(p, s). length s)") auto

section \<open>The queue parser: annotations of the state string\<close>

text \<open>
  The children of an \<open>entry\<close> node, as far as lines 63 to 80 of \<open>parse_queue\<close> read them:
  an element node has a local name and a first child, whose \<open>data\<close> is its text; the
  first child is absent for an empty element, and \<open>child.firstChild.data\<close> raises then.
\<close>

datatype xml_child =
    Element string "string option"
  | Other_node

definition is_digit :: "char \<Rightarrow> bool" where
  "is_digit c = (c \<in> set ''0123456789'')"

text \<open>
  \<open>re.search(r"\(([0-9]+)G\)", state)\<close>: the leftmost position at which an opening
  parenthesis, one or more digits and \<open>G)\<close> follow each other; the value is group 1.
\<close>

fun search_generation :: "string \<Rightarrow> string option" where
  "search_generation [] = None"
| "search_generation (c # cs) =
     (if c = CHR ''('' \<and> takeWhile is_digit cs \<noteq> [] \<and> startswith (dropWhile is_digit cs) ''G)''
      then Some (takeWhile is_digit cs)
      else search_generation cs)"

text \<open>The body of the loop for one \<open>state\<close> element with text \<open>data\<close> (lines 68 to 80).\<close>

definition decode_state :: "string \<Rightarrow> string list \<Rightarrow> string \<Rightarrow> string \<times> string list \<times> string" where
  "decode_state data tags missref_generation =
     (let state = data;
          (tags, state) = (if contains state ''*R''
                           then (tags @ [''ref''], py_remove ''*R'' state) else (tags, state));
          (tags, state) = (if contains state ''*A''
                           then (tags @ [''iana''], py_remove ''*A'' state) else (tags, state))
      in case search_generation state of
           Some g \<Rightarrow> (py_remove (''('' @ g @ ''G)'') state, tags, g)
         | None \<Rightarrow> (state, tags, missref_generation))"

text \<open>
  The loop over \<open>node.childNodes\<close> (lines 66 to 80), started from \<open>state = ""\<close>,
  \<open>tags = []\<close>, \<open>missref_generation = ""\<close>; the result is (state, tags, missref_generation).
\<close>

fun state_loop :: "xml_child list \<Rightarrow> string \<times> string list \<times> string
    \<Rightarrow> py_error + (string \<times> string list \<times> string)" where
  "state_loop [] acc = Inr acc"
| "state_loop (Element local_name first_child # rest) (state, tags, missref_generation) =
     (if local_name = ''state'' then
        (case first_child of
           None \<Rightarrow> Inl AttributeError
         | Some data \<Rightarrow> state_loop rest (decode_state data tags missref_generation))
      else state_loop rest (state, tags, missref_generation))"
| "state_loop (Other_node # rest) acc = state_loop rest acc"

definition entry_state :: "xml_child list \<Rightarrow> py_error + (string \<times> string list \<times> string)" where
  "entry_state children = state_loop children ([], [], [])"

text \<open>
  Predicates and a reference function used to state the properties of the decoder:
  \<open>stars_mark s\<close> says that every asterisk of \<open>s\<close> is directly followed by \<open>R\<close> or
  \<open>A\<close>, that is, every asterisk opens a marker; \<open>strip_markers\<close> deletes the two-character
  markers in one pass; \<open>no_state_element\<close> says that no child is an element named \<open>state\<close>;
  \<open>generation t\<close> is the generation counter that the leftmost generation marker of \<open>t\<close>
  carries (the empty string when there is none), and \<open>without_generation t\<close> is \<open>t\<close> with
  the occurrences of that marker deleted.
\<close>

fun stars_mark :: "string \<Rightarrow> bool" where
  "stars_mark [] = True"
| "stars_mark [c] = (c \<noteq> CHR ''*'')"
| "stars_mark (c # d # cs) =
     ((c = CHR ''*'' \<longrightarrow> d = CHR ''R'' \<or> d = CHR ''A'') \<and> stars_mark (d # cs))"

fun strip_markers :: "string \<Rightarrow> string" where
  "strip_markers (c # d # cs) =
     (if c = CHR ''*'' \<and> (d = CHR ''R'' \<or> d = CHR ''A'') then strip_markers cs
      else c # strip_markers (d # cs))"
| "strip_markers cs = cs"

definition no_state_element :: "xml_child list \<Rightarrow> bool" where
  "no_state_element cs = (\<forall>c \<in> set cs. case c of Element n t \<Rightarrow> n \<noteq> ''state'' | Other_node \<Rightarrow> True)"

definition generation :: "string \<Rightarrow> string" where
  "generation t = (case search_generation t of Some g \<Rightarrow> g | None \<Rightarrow> [])"

definition without_generation :: "string \<Rightarrow> string" where
  "without_generation t =
     (case search_generation t of Some g \<Rightarrow> py_remove (''('' @ g @ ''G)'') t | None \<Rightarrow> t)"

section \<open>Dates and the publication-event time\<close>

text \<open>
  A \<open>datetime.date\<close> is a triple (year, month, day) of the proleptic Gregorian calendar,
  with \<open>MINYEAR = 1\<close> and \<open>MAXYEAR = 9999\<close>. \<open>ymd2ord\<close> is the ordinal of a date (day 1 is
  0001-01-01), computed as the standard library does from the days before the year and the
  days before the month.
\<close>

type_synonym date = "int \<times> int \<times> int"

definition is_leap :: "int \<Rightarrow> bool" where
  "is_leap y = (y mod 4 = 0 \<and> (y mod 100 \<noteq> 0 \<or> y mod 400 = 0))"

definition days_in_month :: "int \<Rightarrow> int \<Rightarrow> int" where
  "days_in_month y m =
     (if m = 2 \<and> is_leap y then 29
      else [31, 28, 31, 30, 31, 30, 31, 31, 30, 31, 30, 31] ! nat (m - 1))"

definition days_before_month :: "int \<Rightarrow> int \<Rightarrow> int" where
  "days_before_month y m =
     [0, 31, 59, 90, 120, 151, 181, 212, 243, 273, 304, 334] ! nat (m - 1)
       + (if m > 2 \<and> is_leap y then 1 else 0)"

definition days_before_year :: "int \<Rightarrow> int" where
  "days_before_year y = (y - 1) * 365 + (y - 1) div 4 - (y - 1) div 100 + (y - 1) div 400"

definition ymd2ord :: "date \<Rightarrow> int" where
  "ymd2ord dt = (case dt of (y, m, d) \<Rightarrow> days_before_year y + days_before_month y m + d)"

definition valid_date :: "date \<Rightarrow> bool" where
  "valid_date dt =
     (case dt of (y, m, d) \<Rightarrow>
        1 \<le> y \<and> y \<le> 9999 \<and> 1 \<le> m \<and> m \<le> 12 \<and> 1 \<le> d \<and> d \<le> days_in_month y m)"

text \<open>
  \<open>wf_date\<close> is \<open>valid_date\<close> without the bounds on the year; it is used to state the
  lemmas about ordinals.
\<close>

definition wf_date :: "date \<Rightarrow> bool" where
  "wf_date dt = (case dt of (y, m, d) \<Rightarrow> 1 \<le> m \<and> m \<le> 12 \<and> 1 \<le> d \<and> d \<le> days_in_month y m)"

text \<open>
  A \<open>datetime\<close> read on the wall clock of the reference time zone: its date and the
  microseconds since midnight.

  Modelled from the spec: \<open>datetime_from_date\<close> and \<open>RPC_TZINFO\<close> of \<open>ietf.utils.timezone\<close>
  are not in the source tree. By the spec the candidate is day 1 of the published month and
  year "in a fixed reference time zone" and is compared with the current time "in the same
  reference zone"; so \<open>datetime_from_date\<close> is midnight of the given date, both values are
  wall-clock readings of one zone, and their difference is the difference of these readings.
\<close>

record datetime =
  dt_date :: date
  dt_micro :: int

definition valid_datetime :: "datetime \<Rightarrow> bool" where
  "valid_datetime t = (valid_date (dt_date t) \<and> 0 \<le> dt_micro t \<and> dt_micro t < 86400000000)"

definition dt_year :: "datetime \<Rightarrow> int" where
  "dt_year t = fst (dt_date t)"

definition dt_month :: "datetime \<Rightarrow> int" where
  "dt_month t = fst (snd (dt_date t))"

definition datetime_from_date :: "date \<Rightarrow> datetime" where
  "datetime_from_date dt = \<lparr>dt_date = dt, dt_micro = 0\<rparr>"

text \<open>A \<open>timedelta\<close> is its exact length in microseconds; \<open>a - b\<close> on two datetimes:\<close>

definition to_micro :: "datetime \<Rightarrow> int" where
  "to_micro t = ymd2ord (dt_date t) * 86400000000 + dt_micro t"

definition datetime_diff :: "datetime \<Rightarrow> datetime \<Rightarrow> int" where
  "datetime_diff a b = to_micro a - to_micro b"

text \<open>
  \<open>synthesized += datetime.timedelta(days=direction)\<close> with \<open>direction\<close> one of \<open>+1\<close> and
  \<open>-1\<close>: the following or the preceding calendar day at the same time of day, and
  \<open>OverflowError\<close> when the year leaves the range 1 to 9999.
\<close>

definition next_day :: "date \<Rightarrow> date" where
  "next_day dt =
     (case dt of (y, m, d) \<Rightarrow>
        if d < days_in_month y m then (y, m, d + 1)
        else if m < 12 then (y, m + 1, 1)
        else (y + 1, 1, 1))"

definition prev_day :: "date \<Rightarrow> date" where
  "prev_day dt =
     (case dt of (y, m, d) \<Rightarrow>
        if 1 < d then (y, m, d - 1)
        else if 1 < m then (y, m - 1, days_in_month y (m - 1))
        else (y - 1, 12, 31))"

definition add_day :: "datetime \<Rightarrow> int \<Rightarrow> py_error + datetime" where
  "add_day t direction =
     (let dt = (if direction < 0 then prev_day (dt_date t) else next_day (dt_date t))
      in if fst dt < 1 \<or> 9999 < fst dt then Inl OverflowError
         else Inr (t\<lparr>dt_date := dt\<rparr>))"

text \<open>
  The loop of lines 464 and 465. It has no bound of its own, so the model takes fuel: the
  value is \<open>None\<close> when the loop has not ended after \<open>fuel\<close> steps.
\<close>

fun day_walk :: "nat \<Rightarrow> int \<Rightarrow> datetime \<Rightarrow> datetime \<Rightarrow> (py_error + datetime) option" where
  "day_walk 0 direction d synthesized =
     (if dt_month synthesized \<noteq> dt_month d \<or> dt_year synthesized \<noteq> dt_year d then None
      else Some (Inr synthesized))"
| "day_walk (Suc fuel) direction d synthesized =
     (if dt_month synthesized \<noteq> dt_month d \<or> dt_year synthesized \<noteq> dt_year d then
        (case add_day synthesized direction of
           Inl e \<Rightarrow> Some (Inl e)
         | Inr s \<Rightarrow> day_walk fuel direction d s)
      else Some (Inr synthesized))"

text \<open>
  Lines 458 to 466: the time of the \<open>published_rfc\<close> event, from the publication date of
  the index entry and the current time \<open>now\<close> (\<open>timezone.now().astimezone(RPC_TZINFO)\<close>).
\<close>

definition synthesize_time :: "nat \<Rightarrow> date \<Rightarrow> datetime \<Rightarrow> (py_error + datetime) option" where
  "synthesize_time fuel rfc_published_date now =
     (let d = datetime_from_date rfc_published_date;
          synthesized = now
      in if \<bar>datetime_diff d synthesized\<bar> > 60 * 86400000000 then Some (Inr d)
         else
           let direction = (if datetime_diff d synthesized < 0 then - 1 else 1)
           in day_walk fuel direction d synthesized)"

section \<open>The document database\<close>

text \<open>
  The tables of the Django models that the two reconcilers read and write. Rows are kept
  in lists, in the order of their creation, so that queries can enumerate them.

  Modelled from the spec: the models of \<open>ietf.doc.models\<close>, \<open>ietf.group.models\<close> and
  \<open>ietf.name.models\<close> are not in the source tree. By the spec a document is a "mutable
  record keyed by name, with fields mirrored from index/queue data, a current lifecycle
  state per state-type namespace, a tag set, and an event history"; an alias is "an
  alternate identifier" resolving to a document; a related document is a "directed edge
  {source, target, relationship-kind}"; an event is an "append-only log entry".
  The rows of the name and state tables that the code fetches by a fixed slug
  (\<open>StdLevelName\<close>, \<open>StreamName\<close>, \<open>DocRelationshipName\<close>, \<open>State\<close>, the person
  \<open>(System)\<close>) are fixtures of the repository; these lookups are taken to succeed, and
  such a row is represented by its slug.
\<close>

text \<open>The scalar fields of a \<open>Document\<close> row, which are also the fields of the object in memory.\<close>

record doc_fields =
  doc_type :: string
  doc_title :: string
  doc_abstract :: string
  doc_pages :: "int option"
  doc_std_level :: "string option"
  doc_stream :: "string option"
  doc_group :: "string option"
  doc_rev :: string

text \<open>
  The notes that \<open>update_docs_from_rfc_index\<close> appends to \<open>changes\<close>. Each constructor
  stands for one format string of the source; the rendering of names and labels, which
  goes through functions outside the source tree, is not modelled.
\<close>

datatype change =
    Created_document string  \<comment> \<open>created document %s\<close>
  | Created_alias string  \<comment> \<open>created alias %s\<close>
  | Changed_title string  \<comment> \<open>changed title to '%s'\<close>
  | Changed_abstract string  \<comment> \<open>changed abstract to '%s'\<close>
  | Changed_pages int  \<comment> \<open>changed pages to %s\<close>
  | Changed_std_level string  \<comment> \<open>changed standardization level to %s\<close>
  | Changed_state string  \<comment> \<open>changed state to %s\<close>
  | Changed_stream string  \<comment> \<open>changed stream to %s\<close>
  | Set_group string  \<comment> \<open>set group to %s\<close>
  | Added_published_event datetime  \<comment> \<open>added RFC published event at %s\<close>
  | Changed_stream_state string string  \<comment> \<open>changed %s to %s\<close>
  | Created_relation string string string  \<comment> \<open>created %s relation between %s and %s\<close>
  | Added_errata_tag  \<comment> \<open>added Errata tag\<close>
  | Added_verified_errata_tag  \<comment> \<open>added Verified Errata tag\<close>
  | Removed_errata_tag_all_rejected  \<comment> \<open>removed Errata tag (all errata rejected)\<close>
  | Removed_errata_tag  \<comment> \<open>removed Errata tag\<close>
  | Removed_verified_errata_tag  \<comment> \<open>removed Verified Errata tag\<close>

text \<open>
  A \<open>DocEvent\<close> row. \<open>ev_time\<close> is \<open>None\<close> where the row takes the default time of its
  creation. \<open>ev_link\<close> holds the AUTH48 address that the queue reconciler splices into the
  description of a state-change event, and \<open>ev_changes\<close> the notes that the description of
  a \<open>sync_from_rfc_editor\<close> event lists; the text of other descriptions is not modelled.
\<close>

record docevent =
  ev_doc :: string
  ev_type :: string
  ev_rev :: string
  ev_time :: "datetime option"
  ev_link :: "string option"
  ev_changes :: "change list"

record db =
  documents :: "(string \<times> doc_fields) list"  \<comment> \<open>\<open>Document\<close>: name and scalar fields\<close>
  doc_states :: "string \<Rightarrow> string \<Rightarrow> string option"  \<comment> \<open>\<open>Document.states\<close>: document, state type, slug\<close>
  doc_tags :: "string \<Rightarrow> string list"  \<comment> \<open>\<open>Document.tags\<close>: document, tag slugs\<close>
  docalias :: "(string \<times> string list) list"  \<comment> \<open>\<open>DocAlias\<close>: name and \<open>docs\<close>\<close>
  relateddocument :: "(string \<times> string \<times> string) list"  \<comment> \<open>source document, target alias, relationship\<close>
  docevents :: "docevent list"
  documenturl :: "(string \<times> string \<times> string) list"  \<comment> \<open>document, tag, url\<close>
  doctagname :: "string list"  \<comment> \<open>the slugs of \<open>DocTagName\<close>\<close>
  groups :: "(string \<times> string) list"  \<comment> \<open>\<open>Group\<close>: acronym and type\<close>
  outbox :: "(string \<times> string) list"  \<comment> \<open>mail sent: subject and body\<close>

text \<open>
  Modelled from the spec: the methods of \<open>Document\<close> (\<open>get_state\<close>, \<open>set_state\<close>,
  \<open>unset_state\<close>, \<open>latest_event\<close>, \<open>save_with_history\<close>) are not in the source tree.
  A document has one "current lifecycle state per state-type namespace": \<open>set_state\<close>
  replaces the state of the type of the given state, \<open>unset_state\<close> removes it. States
  and tags are many-to-many relations and change in the database at once; a scalar field
  assigned on the object reaches the database with \<open>save_with_history\<close>, which persists
  the fields "atomically with the document's revision history".
\<close>

definition get_state :: "db \<Rightarrow> string \<Rightarrow> string \<Rightarrow> string option" where
  "get_state s name state_type = doc_states s name state_type"

definition set_state :: "string \<Rightarrow> string \<Rightarrow> string \<Rightarrow> db \<Rightarrow> db" where
  "set_state name state_type slug s =
     s\<lparr>doc_states := (doc_states s)(name := (doc_states s name)(state_type \<mapsto> slug))\<rparr>"

definition unset_state :: "string \<Rightarrow> string \<Rightarrow> db \<Rightarrow> db" where
  "unset_state name state_type s =
     s\<lparr>doc_states := (doc_states s)(name := (doc_states s name)(state_type := None))\<rparr>"

definition latest_event :: "db \<Rightarrow> string \<Rightarrow> string \<Rightarrow> bool" where
  "latest_event s name event_type =
     (\<exists>e \<in> set (docevents s). ev_doc e = name \<and> ev_type e = event_type)"

definition save_event :: "docevent \<Rightarrow> db \<Rightarrow> db" where
  "save_event e s = s\<lparr>docevents := docevents s @ [e]\<rparr>"

definition save_with_history :: "string \<Rightarrow> doc_fields \<Rightarrow> db \<Rightarrow> db" where
  "save_with_history name doc s = s\<lparr>documents := AList.update name doc (documents s)\<rparr>"

definition tags_add :: "string \<Rightarrow> string \<Rightarrow> db \<Rightarrow> db" where
  "tags_add name tag s =
     (if tag \<in> set (doc_tags s name) then s
      else s\<lparr>doc_tags := (doc_tags s)(name := doc_tags s name @ [tag])\<rparr>)"

definition tags_remove :: "string \<Rightarrow> string list \<Rightarrow> db \<Rightarrow> db" where
  "tags_remove name tags s =
     s\<lparr>doc_tags := (doc_tags s)(name := filter (\<lambda>t. t \<notin> set tags) (doc_tags s name))\<rparr>"

definition tags_set :: "string \<Rightarrow> string list \<Rightarrow> db \<Rightarrow> db" where
  "tags_set name tags s = s\<lparr>doc_tags := (doc_tags s)(name := tags)\<rparr>"

text \<open>
  Modelled from the spec: \<open>add_state_change_event\<close> and \<open>update_action_holders\<close> of
  \<open>ietf.doc.utils\<close> are not in the source tree. The first "creates a state-change event",
  which is saved and returned. The second is an "external capability" that may produce an
  event; it is a parameter of the model, a function of the document and the two states,
  and its event is saved when there is one.
\<close>

type_synonym action_holders = "string \<Rightarrow> string option \<Rightarrow> string \<Rightarrow> docevent option"

definition state_change_event :: "string \<Rightarrow> string \<Rightarrow> docevent" where
  "state_change_event name revision =
     \<lparr>ev_doc = name, ev_type = ''changed_state'', ev_rev = revision, ev_time = None,
      ev_link = None, ev_changes = []\<rparr>"

definition save_optional_event :: "docevent option \<Rightarrow> db \<Rightarrow> db" where
  "save_optional_event e s = (case e of None \<Rightarrow> s | Some ev \<Rightarrow> save_event ev s)"

section \<open>The queue reconciler: \<open>update_drafts_from_queue\<close>\<close>

text \<open>One tuple of \<open>drafts\<close>, as \<open>parse_queue\<close> builds it.\<close>

record queue_entry =
  q_name :: string
  q_date_received :: string
  q_state :: string
  q_tags :: "string list"
  q_missref_generation :: string
  q_stream :: "string option"
  q_auth48 :: string
  q_cluster :: string
  q_refs :: "(string \<times> string \<times> bool) list"

text \<open>\<open>state_mapping\<close>: the codes of the queue and the slugs of the \<open>draft-rfceditor\<close> states.\<close>

definition state_mapping :: "(string \<times> string) list" where
  "state_mapping =
     [(''AUTH'', ''auth''), (''AUTH48'', ''auth48''), (''AUTH48-DONE'', ''auth48-done''),
      (''EDIT'', ''edit''), (''IANA'', ''iana''), (''IESG'', ''iesg''), (''ISR'', ''isr''),
      (''ISR-AUTH'', ''isr-auth''), (''REF'', ''ref''), (''RFC-EDITOR'', ''rfc-edit''),
      (''TI'', ''tooling-issue''), (''TO'', ''timeout''), (''MISSREF'', ''missref'')]"

text \<open>
  The names of the documents that have an alias in \<open>names\<close>
  (\<open>docalias__name__in=names\<close>), and the keys of \<open>drafts_in_db\<close>: the names of the documents
  of type \<open>draft\<close> among them.
\<close>

definition docs_with_alias_in :: "db \<Rightarrow> string list \<Rightarrow> string list" where
  "docs_with_alias_in s names =
     concat (map snd (filter (\<lambda>(alias, ds). alias \<in> set names) (docalias s)))"

definition drafts_in_db :: "db \<Rightarrow> string list \<Rightarrow> string list" where
  "drafts_in_db s names =
     map fst (filter (\<lambda>(n, d). doc_type d = ''draft'' \<and> n \<in> set (docs_with_alias_in s names))
                     (documents s))"

text \<open>
  The body of the first loop (lines 163 to 227) for one entry. \<open>in_db\<close> holds the keys of
  \<open>drafts_in_db\<close>, \<open>rows\<close> the objects loaded with them; the accumulator is the database,
  the set \<open>changed\<close> and the list \<open>warnings\<close>.
\<close>

definition queue_entry_step :: "action_holders \<Rightarrow> string list \<Rightarrow> (string \<times> doc_fields) list
    \<Rightarrow> queue_entry \<Rightarrow> db \<times> string set \<times> string list \<Rightarrow> db \<times> string set \<times> string list" where
  "queue_entry_step uah in_db rows e acc =
     (case acc of (s, changed, warnings) \<Rightarrow>
      let name = q_name e; state = q_state e in
      if name \<notin> set in_db then (s, changed, warnings @ [''unknown document '' @ name])
      else if state = [] \<or> map_of state_mapping state = None then
        (s, changed, warnings @ [''unknown state '' @ [CHR 0x27] @ state @ [CHR 0x27] @ '' for '' @ name])
      else
        let revision = (case map_of rows name of Some d \<Rightarrow> doc_rev d | None \<Rightarrow> []);
            prev_state = get_state s name ''draft-rfceditor'';
            next_state = the (map_of state_mapping state);
            events = [];
            (s, events, changed) =
              (if get_state s name ''draft-iesg'' = Some ''ann'' \<and> prev_state = None
                  \<and> \<not> latest_event s name ''rfc_editor_received_announcement''
               then
                 let ev = \<lparr>ev_doc = name, ev_type = ''rfc_editor_received_announcement'',
                           ev_rev = revision, ev_time = None, ev_link = None, ev_changes = []\<rparr>;
                     s = save_event ev s;
                     s = s\<lparr>outbox := outbox s @
                           [(name @ '' in RFC Editor queue'',
                             ''The announcement for '' @ name @ '' has been received by the RFC Editor.'')]\<rparr>;
                     s = set_state name ''draft-iesg'' ''rfcqueue'' s;
                     ev1 = state_change_event name revision;
                     s = save_event ev1 s;
                     events = events @ [ev1];
                     ev2 = uah name (Some ''ann'') ''rfcqueue'';
                     s = save_optional_event ev2 s;
                     events = events @ (case ev2 of None \<Rightarrow> [] | Some x \<Rightarrow> [x])
                 in (s, events, insert name changed)
               else (s, events, changed));
            (s, events, changed) =
              (if prev_state \<noteq> Some next_state then
                 let s = set_state name ''draft-rfceditor'' next_state s;
                     ev = state_change_event name revision;
                     (s, ev) =
                       (if q_auth48 e \<noteq> [] then
                          (s\<lparr>documenturl :=
                               filter (\<lambda>(n, tag, url). \<not> (n = name \<and> tag = ''auth48'')) (documenturl s)
                                 @ [(name, ''auth48'', q_auth48 e)]\<rparr>,
                           ev\<lparr>ev_link := Some (q_auth48 e)\<rparr>)
                        else
                          (s\<lparr>documenturl :=
                               filter (\<lambda>(n, tag, url). \<not> (n = name \<and> tag = ''auth48'')) (documenturl s)\<rparr>,
                           ev));
                     s = save_event ev s
                 in (s, events @ [ev], insert name changed)
               else (s, events, changed));
            t = filter (\<lambda>slug. slug \<in> set (q_tags e)) (doctagname s);
            (s, changed) =
              (if set t \<noteq> set (doc_tags s name) then
                 (tags_set name t (tags_set name [] s), insert name changed)
               else (s, changed));
            s = (if events \<noteq> [] then
                   (case map_of rows name of
                      Some d \<Rightarrow> save_with_history name d s
                    | None \<Rightarrow> s)
                 else s)
        in (s, changed, warnings))"

text \<open>
  The documents of the second loop (line 231): those without an alias in \<open>names\<close> that
  have a state of type \<open>draft-rfceditor\<close>.
\<close>

definition left_queue :: "db \<Rightarrow> string list \<Rightarrow> string list" where
  "left_queue s names =
     map fst (filter (\<lambda>(n, d). n \<notin> set (docs_with_alias_in s names)
                               \<and> doc_states s n ''draft-rfceditor'' \<noteq> None)
                     (documents s))"

text \<open>
  The body of the second loop (lines 232 to 236). It adds the variable \<open>name\<close> to
  \<open>changed\<close>: the name of the last entry of the first loop, which is unbound when
  \<open>drafts\<close> is empty.
\<close>

fun removal_loop :: "string list \<Rightarrow> string option \<Rightarrow> db \<times> string set \<Rightarrow> py_error + (db \<times> string set)" where
  "removal_loop [] name acc = Inr acc"
| "removal_loop (d # ds) name (s, changed) =
     (let s = tags_remove d [''iana'', ''ref''] s;
          s = unset_state d ''draft-rfceditor'' s
      in case name of
           None \<Rightarrow> Inl UnboundLocalError
         | Some n \<Rightarrow> removal_loop ds name (s, insert n changed))"

definition update_drafts_from_queue :: "action_holders \<Rightarrow> queue_entry list \<Rightarrow> db
    \<Rightarrow> py_error + (db \<times> string set \<times> string list)" where
  "update_drafts_from_queue uah drafts s =
     (if ''iana'' \<notin> set (doctagname s) \<or> ''ref'' \<notin> set (doctagname s) then Inl DoesNotExist
      else
        let names = map q_name drafts;
            in_db = drafts_in_db s names;
            rows = filter (\<lambda>(n, d). n \<in> set in_db) (documents s);
            (s, changed, warnings) = foldl (\<lambda>acc e. queue_entry_step uah in_db rows e acc) (s, {}, []) drafts;
            name = (if drafts = [] then None else Some (q_name (last drafts)))
        in case removal_loop (left_queue s names) name (s, changed) of
             Inl err \<Rightarrow> Inl err
           | Inr (s, changed) \<Rightarrow> Inr (s, changed, warnings))"

section \<open>The index reconciler: \<open>update_docs_from_rfc_index\<close>\<close>

text \<open>One tuple of \<open>index_data\<close>, as \<open>parse_index\<close> builds it, and one item of \<open>errata_data\<close>.\<close>

record index_entry =
  i_rfc_number :: int
  i_title :: string
  i_authors :: "string list"
  i_rfc_published_date :: date
  i_current_status :: string
  i_updates :: "string list"
  i_updated_by :: "string list"
  i_obsoletes :: "string list"
  i_obsoleted_by :: "string list"
  i_also :: "string list"
  i_draft :: string
  i_has_errata :: bool
  i_stream :: string
  i_wg :: "string option"
  i_file_formats :: string
  i_pages :: string
  i_abstract :: string

record erratum =
  doc_id :: string  \<comment> \<open>\<open>item['doc-id']\<close>\<close>
  errata_status_code :: string  \<comment> \<open>\<open>item['errata_status_code']\<close>\<close>

text \<open>Lines 343 to 348: the dictionary \<open>errata\<close>, from a document identifier to its items.\<close>

definition group_errata :: "erratum list \<Rightarrow> string \<Rightarrow> erratum list option" where
  "group_errata errata_data =
     foldl (\<lambda>errata item.
              errata(doc_id item \<mapsto> (case errata (doc_id item) of None \<Rightarrow> [] | Some l \<Rightarrow> l) @ [item]))
           Map.empty errata_data"

definition std_level_mapping :: "(string \<times> string) list" where
  "std_level_mapping =
     [(''Standard'', ''std''), (''Internet Standard'', ''std''), (''Draft Standard'', ''ds''),
      (''Proposed Standard'', ''ps''), (''Informational'', ''inf''), (''Experimental'', ''exp''),
      (''Best Current Practice'', ''bcp''), (''Historic'', ''hist''), (''Unknown'', ''unkn'')]"

definition stream_mapping :: "(string \<times> string) list" where
  "stream_mapping =
     [(''IETF'', ''ietf''), (''INDEPENDENT'', ''ise''), (''IRTF'', ''irtf''), (''IAB'', ''iab''),
      (''Legacy'', ''legacy'')]"

text \<open>
  \<open>int(s)\<close> for a string: surrounding white space is dropped, a sign may lead, and the rest
  is decimal digits, which single underscores may separate; anything else raises
  \<open>ValueError\<close>, here \<open>None\<close>. White space is what \<open>str.isspace\<close> accepts: of the
  characters of the model, whose code points are below 256, these are the space, the
  controls 0x09 to 0x0D and 0x1C to 0x1F, the next-line control 0x85 and the no-break
  space 0xA0; the decimal digits below 256 are \<open>0\<close> to \<open>9\<close>. \<open>x.lower()\<close> lowers the
  upper-case letters: of the characters of the model these are \<open>A\<close> to \<open>Z\<close> and the
  letters 0xC0 to 0xDE without the sign 0xD7, each of which has its lower-case letter 0x20
  higher. \<open>'RFC%04d' % n\<close> pads the number with zeros to four characters, the sign
  included.
\<close>

definition is_space :: "char \<Rightarrow> bool" where
  "is_space c =
     (c \<in> set [CHR '' '', CHR 0x09, CHR 0x0A, CHR 0x0B, CHR 0x0C, CHR 0x0D,
                CHR 0x1C, CHR 0x1D, CHR 0x1E, CHR 0x1F, CHR 0x85, CHR 0xA0])"

definition strip :: "string \<Rightarrow> string" where
  "strip s = rev (dropWhile is_space (rev (dropWhile is_space s)))"

fun digits_ok :: "string \<Rightarrow> bool" where
  "digits_ok [] = False"
| "digits_ok [c] = is_digit c"
| "digits_ok (c # d # cs) =
     (is_digit c \<and> (if d = CHR ''_'' then digits_ok cs else digits_ok (d # cs)))"

definition digit_val :: "char \<Rightarrow> int" where
  "digit_val c = int (length (takeWhile (\<lambda>d. d \<noteq> c) ''0123456789''))"

definition py_int :: "string \<Rightarrow> int option" where
  "py_int s =
     (let t = strip s;
          (sign, body) =
            (case t of
               [] \<Rightarrow> (1, t)
             | c # r \<Rightarrow> if c = CHR ''-'' then (- 1, r) else if c = CHR ''+'' then (1, r) else (1, t))
      in if digits_ok body
         then Some (sign * foldl (\<lambda>a c. 10 * a + digit_val c) 0 (filter is_digit body))
         else None)"

definition upper_letters :: string where
  "upper_letters =
     ''ABCDEFGHIJKLMNOPQRSTUVWXYZ'' @
       [CHR 0xC0, CHR 0xC1, CHR 0xC2, CHR 0xC3, CHR 0xC4, CHR 0xC5, CHR 0xC6, CHR 0xC7, CHR 0xC8, CHR 0xC9,
        CHR 0xCA, CHR 0xCB, CHR 0xCC, CHR 0xCD, CHR 0xCE, CHR 0xCF, CHR 0xD0, CHR 0xD1, CHR 0xD2, CHR 0xD3,
        CHR 0xD4, CHR 0xD5, CHR 0xD6, CHR 0xD8, CHR 0xD9, CHR 0xDA, CHR 0xDB, CHR 0xDC, CHR 0xDD, CHR 0xDE]"

definition lower_letters :: string where
  "lower_letters =
     ''abcdefghijklmnopqrstuvwxyz'' @
       [CHR 0xE0, CHR 0xE1, CHR 0xE2, CHR 0xE3, CHR 0xE4, CHR 0xE5, CHR 0xE6, CHR 0xE7, CHR 0xE8, CHR 0xE9,
        CHR 0xEA, CHR 0xEB, CHR 0xEC, CHR 0xED, CHR 0xEE, CHR 0xEF, CHR 0xF0, CHR 0xF1, CHR 0xF2, CHR 0xF3,
        CHR 0xF4, CHR 0xF5, CHR 0xF6, CHR 0xF8, CHR 0xF9, CHR 0xFA, CHR 0xFB, CHR 0xFC, CHR 0xFD, CHR 0xFE]"

definition lower_char :: "char \<Rightarrow> char" where
  "lower_char c =
     (case map_of (zip upper_letters lower_letters) c of
        Some l \<Rightarrow> l
      | None \<Rightarrow> c)"

definition py_lower :: "string \<Rightarrow> string" where
  "py_lower s = map lower_char s"

definition fmt_04d :: "int \<Rightarrow> string" where
  "fmt_04d n =
     (let ds = str_of_nat (nat \<bar>n\<bar>);
          sign = (if n < 0 then ''-'' else [])
      in sign @ replicate (4 - length sign - length ds) CHR ''0'' @ ds)"

text \<open>
  The variables of the loop body for one entry: the database, the name and the fields of
  the object \<open>doc\<close>, and the lists \<open>changes\<close> and \<open>events\<close> with the flag \<open>rfc_published\<close>.
\<close>

record work =
  w_db :: db
  w_name :: string
  w_doc :: doc_fields
  w_changes :: "change list"
  w_events :: "docevent list"
  w_rfc_published :: bool

text \<open>
  Lines 390 to 410: the document of the alias \<open>rfc<number>\<close>, else the document named by
  \<open>draft\<close>, else a new document; in the last two cases the alias is created.

  Modelled from the spec: \<open>DocAlias.document\<close> and the defaults of a new \<open>Document\<close> are not
  in the source tree. An alias "resolves to one document record", here the first of its
  \<open>docs\<close>, and the object is \<open>None\<close> when there is none, so that reading its title raises;
  a new document has empty fields. Creating a document whose name is taken violates the
  uniqueness of names.
\<close>

definition new_document :: doc_fields where
  "new_document =
     \<lparr>doc_type = ''draft'', doc_title = [], doc_abstract = [], doc_pages = None,
      doc_std_level = None, doc_stream = None, doc_group = None, doc_rev = []\<rparr>"

definition resolve_document :: "db \<Rightarrow> index_entry \<Rightarrow> py_error + work" where
  "resolve_document s e =
     (let name = ''rfc'' @ str_of_int (i_rfc_number e);
          a = filter (\<lambda>(n, ds). n = name) (docalias s)
      in case a of
           (n, ds) # _ \<Rightarrow>
             (case ds of
                [] \<Rightarrow> Inl AttributeError
              | dn # _ \<Rightarrow>
                  (case map_of (documents s) dn of
                     None \<Rightarrow> Inl DoesNotExist
                   | Some d \<Rightarrow>
                       Inr \<lparr>w_db = s, w_name = dn, w_doc = d, w_changes = [], w_events = [],
                            w_rfc_published = False\<rparr>))
         | [] \<Rightarrow>
             (let found = (if i_draft e \<noteq> [] then map_of (documents s) (i_draft e) else None)
              in case found of
                   Some d \<Rightarrow>
                     Inr \<lparr>w_db = s\<lparr>docalias := docalias s @ [(name, [i_draft e])]\<rparr>,
                          w_name = i_draft e, w_doc = d,
                          w_changes = [Created_alias name], w_events = [],
                          w_rfc_published = False\<rparr>
                 | None \<Rightarrow>
                     if map_of (documents s) name \<noteq> None then Inl IntegrityError
                     else
                       Inr \<lparr>w_db = s\<lparr>documents := documents s @ [(name, new_document)],
                                     docalias := docalias s @ [(name, [name])]\<rparr>,
                            w_name = name, w_doc = new_document,
                            w_changes = [Created_document name, Created_alias name],
                            w_events = [], w_rfc_published = False\<rparr>))"

text \<open>Lines 413 to 427: title, abstract, pages and standardization level.\<close>

definition check_title :: "index_entry \<Rightarrow> work \<Rightarrow> work" where
  "check_title e w =
     (if i_title e \<noteq> doc_title (w_doc w)
      then w\<lparr>w_doc := (w_doc w)\<lparr>doc_title := i_title e\<rparr>,
             w_changes := w_changes w @ [Changed_title (i_title e)]\<rparr>
      else w)"

definition check_abstract :: "index_entry \<Rightarrow> work \<Rightarrow> work" where
  "check_abstract e w =
     (if i_abstract e \<noteq> [] \<and> i_abstract e \<noteq> doc_abstract (w_doc w)
      then w\<lparr>w_doc := (w_doc w)\<lparr>doc_abstract := i_abstract e\<rparr>,
             w_changes := w_changes w @ [Changed_abstract (i_abstract e)]\<rparr>
      else w)"

definition check_pages :: "index_entry \<Rightarrow> work \<Rightarrow> py_error + work" where
  "check_pages e w =
     (if i_pages e \<noteq> [] then
        (case py_int (i_pages e) of
           None \<Rightarrow> Inl ValueError
         | Some n \<Rightarrow>
             if Some n \<noteq> doc_pages (w_doc w)
             then Inr (w\<lparr>w_doc := (w_doc w)\<lparr>doc_pages := Some n\<rparr>,
                         w_changes := w_changes w @ [Changed_pages n]\<rparr>)
             else Inr w)
      else Inr w)"

definition check_std_level :: "index_entry \<Rightarrow> work \<Rightarrow> py_error + work" where
  "check_std_level e w =
     (case map_of std_level_mapping (i_current_status e) of
        None \<Rightarrow> Inl KeyError
      | Some level \<Rightarrow>
          if Some level \<noteq> doc_std_level (w_doc w)
          then Inr (w\<lparr>w_doc := (w_doc w)\<lparr>doc_std_level := Some level\<rparr>,
                      w_changes := w_changes w @ [Changed_std_level level]\<rparr>)
          else Inr w)"

text \<open>
  Lines 429 to 432. Modelled from the spec: \<open>Document.get_state_slug\<close> is not in the source
  tree; "the document's lifecycle state" is read as the state of type \<open>draft\<close>, the type of
  the state that the code sets. \<open>move_draft_files_to_archive\<close> acts on files, which are not
  part of the model.
\<close>

definition check_state :: "work \<Rightarrow> work" where
  "check_state w =
     (if get_state (w_db w) (w_name w) ''draft'' \<noteq> Some ''rfc''
      then w\<lparr>w_db := set_state (w_name w) ''draft'' ''rfc'' (w_db w),
             w_changes := w_changes w @ [Changed_state ''rfc'']\<rparr>
      else w)"

text \<open>Lines 434 to 436.\<close>

definition check_stream :: "index_entry \<Rightarrow> work \<Rightarrow> py_error + work" where
  "check_stream e w =
     (case map_of stream_mapping (i_stream e) of
        None \<Rightarrow> Inl KeyError
      | Some slug \<Rightarrow>
          if doc_stream (w_doc w) \<noteq> Some slug
          then Inr (w\<lparr>w_doc := (w_doc w)\<lparr>doc_stream := Some slug\<rparr>,
                      w_changes := w_changes w @ [Changed_stream slug]\<rparr>)
          else Inr w)"

text \<open>
  Lines 438 to 443: \<open>Group.objects.get\<close> raises unless exactly one row matches. A group is
  represented by its acronym.
\<close>

definition get_one :: "'a list \<Rightarrow> py_error + 'a" where
  "get_one rows =
     (case rows of
        [] \<Rightarrow> Inl DoesNotExist
      | [x] \<Rightarrow> Inr x
      | _ \<Rightarrow> Inl MultipleObjectsReturned)"

definition check_group :: "index_entry \<Rightarrow> work \<Rightarrow> py_error + work" where
  "check_group e w =
     (if doc_group (w_doc w) = None then
        (if i_wg e \<noteq> None \<and> i_wg e \<noteq> Some [] then
           (case get_one (filter (\<lambda>(acronym, type). Some acronym = i_wg e) (groups (w_db w))) of
              Inl err \<Rightarrow> Inl err
            | Inr (acronym, type) \<Rightarrow>
                Inr (w\<lparr>w_doc := (w_doc w)\<lparr>doc_group := Some acronym\<rparr>,
                       w_changes := w_changes w @ [Set_group acronym]\<rparr>))
         else
           (case get_one (filter (\<lambda>(acronym, type). type = ''individ'') (groups (w_db w))) of
              Inl err \<Rightarrow> Inl err
            | Inr (acronym, type) \<Rightarrow> Inr (w\<lparr>w_doc := (w_doc w)\<lparr>doc_group := Some acronym\<rparr>\<rparr>)))
      else Inr w)"

text \<open>
  Lines 445 to 473: the \<open>published_rfc\<close> event. The loop of the synthesis runs with fuel 60;
  \<open>Diverges\<close> stands for a loop that has not ended by then.
\<close>

definition published_event :: "datetime \<Rightarrow> index_entry \<Rightarrow> work \<Rightarrow> py_error + work" where
  "published_event now e w =
     (if \<not> latest_event (w_db w) (w_name w) ''published_rfc'' then
        (case synthesize_time 60 (i_rfc_published_date e) now of
           None \<Rightarrow> Inl Diverges
         | Some (Inl err) \<Rightarrow> Inl err
         | Some (Inr synthesized) \<Rightarrow>
             (let ev = \<lparr>ev_doc = w_name w, ev_type = ''published_rfc'', ev_rev = doc_rev (w_doc w),
                        ev_time = Some synthesized, ev_link = None, ev_changes = []\<rparr>
              in Inr (w\<lparr>w_db := save_event ev (w_db w),
                         w_events := w_events w @ [ev],
                         w_changes := w_changes w @ [Added_published_event synthesized],
                         w_rfc_published := True\<rparr>)))
      else Inr w)"

text \<open>Lines 475 to 486, for one state type \<open>t\<close>, and for the four types in turn.\<close>

definition stream_state_step :: "action_holders \<Rightarrow> string \<Rightarrow> work \<Rightarrow> work" where
  "stream_state_step uah t w =
     (case get_state (w_db w) (w_name w) t of
        Some prev_state \<Rightarrow>
          if prev_state \<notin> set [''pub'', ''idexists''] then
            (let ev = uah (w_name w) (Some prev_state) ''pub''
             in w\<lparr>w_db := save_optional_event ev (set_state (w_name w) t ''pub'' (w_db w)),
                  w_changes := w_changes w @ [Changed_stream_state t ''pub''],
                  w_events := w_events w @ (case ev of None \<Rightarrow> [] | Some x \<Rightarrow> [x])\<rparr>)
          else w
      | None \<Rightarrow>
          if t = ''draft-iesg''
          then w\<lparr>w_db := set_state (w_name w) ''draft-iesg'' ''idexists'' (w_db w)\<rparr>
          else w)"

definition stream_states :: "action_holders \<Rightarrow> work \<Rightarrow> work" where
  "stream_states uah w =
     foldl (\<lambda>w t. stream_state_step uah t w) w
       [''draft-iesg'', ''draft-stream-iab'', ''draft-stream-irtf'', ''draft-stream-ise'']"

text \<open>
  Lines 488 to 501, \<open>parse_relation_list\<close>: the aliases that the identifiers of a list
  name, each once. An alias is represented by its name.
\<close>

definition relation_targets :: "db \<Rightarrow> string \<Rightarrow> string list" where
  "relation_targets s x =
     (if take 3 x \<in> set [''NIC'', ''IEN'', ''STD'', ''RTR''] then
        map fst (filter (\<lambda>(n, ds). startswith n ''rfc''
                           \<and> (\<exists>d \<in> set ds. \<exists>(n', ds') \<in> set (docalias s). d \<in> set ds' \<and> n' = py_lower x))
                        (docalias s))
      else map fst (filter (\<lambda>(n, ds). n = py_lower x) (docalias s)))"

definition parse_relation_list :: "db \<Rightarrow> string list \<Rightarrow> string list" where
  "parse_relation_list s l =
     foldl (\<lambda>res x. foldl (\<lambda>res a. if a \<notin> set res then res @ [a] else res) res (relation_targets s x))
       [] l"

text \<open>Lines 503 to 511: the loop over the targets for one relationship.\<close>

definition relation_step :: "string \<Rightarrow> work \<Rightarrow> string \<Rightarrow> work" where
  "relation_step relationship w x =
     (if (w_name w, x, relationship) \<notin> set (relateddocument (w_db w))
      then w\<lparr>w_db := (w_db w)\<lparr>relateddocument :=
                 relateddocument (w_db w) @ [(w_name w, x, relationship)]\<rparr>,
             w_changes := w_changes w @ [Created_relation relationship (w_name w) x]\<rparr>
      else w)"

definition relations :: "string \<Rightarrow> string list \<Rightarrow> work \<Rightarrow> work" where
  "relations relationship l w =
     foldl (relation_step relationship) w (parse_relation_list (w_db w) l)"

text \<open>Lines 513 to 518.\<close>

definition also_step :: "work \<Rightarrow> string \<Rightarrow> work" where
  "also_step w a =
     (let a = py_lower a in
      if filter (\<lambda>(n, ds). n = a) (docalias (w_db w)) = []
      then w\<lparr>w_db := (w_db w)\<lparr>docalias := docalias (w_db w) @ [(a, [w_name w])]\<rparr>,
             w_changes := w_changes w @ [Created_alias a]\<rparr>
      else w)"

definition also_aliases :: "index_entry \<Rightarrow> work \<Rightarrow> work" where
  "also_aliases e w = foldl also_step w (i_also e)"

text \<open>Lines 520 to 539: the tags \<open>errata\<close> and \<open>verified-errata\<close>.\<close>

definition errata_tags :: "(string \<Rightarrow> erratum list option) \<Rightarrow> index_entry \<Rightarrow> work \<Rightarrow> work" where
  "errata_tags errata e w =
     (let doc_errata = (case errata (''RFC'' @ fmt_04d (i_rfc_number e)) of None \<Rightarrow> [] | Some l \<Rightarrow> l);
          all_rejected = (doc_errata \<noteq> [] \<and> (\<forall>er \<in> set doc_errata. errata_status_code er = ''Rejected''))
      in if i_has_errata e \<and> \<not> all_rejected then
           (let w = (if ''errata'' \<notin> set (doc_tags (w_db w) (w_name w))
                     then w\<lparr>w_db := tags_add (w_name w) ''errata'' (w_db w),
                            w_changes := w_changes w @ [Added_errata_tag]\<rparr>
                     else w);
                has_verified_errata = (\<exists>er \<in> set doc_errata. errata_status_code er = ''Verified'')
            in if has_verified_errata \<and> ''verified-errata'' \<notin> set (doc_tags (w_db w) (w_name w))
               then w\<lparr>w_db := tags_add (w_name w) ''verified-errata'' (w_db w),
                      w_changes := w_changes w @ [Added_verified_errata_tag]\<rparr>
               else w)
         else
           (let w = (if ''errata'' \<in> set (doc_tags (w_db w) (w_name w))
                     then w\<lparr>w_db := tags_remove (w_name w) [''errata''] (w_db w),
                            w_changes := w_changes w @
                              [if all_rejected then Removed_errata_tag_all_rejected else Removed_errata_tag]\<rparr>
                     else w)
            in if ''verified-errata'' \<in> set (doc_tags (w_db w) (w_name w))
               then w\<lparr>w_db := tags_remove (w_name w) [''verified-errata''] (w_db w),
                      w_changes := w_changes w @ [Removed_verified_errata_tag]\<rparr>
               else w))"

text \<open>
  Lines 541 to 553: with a change, the \<open>sync_from_rfc_editor\<close> event is created, the
  object is saved, and the tuple (changes, doc, rfc_published) is yielded; the document
  is represented by its name.
\<close>

definition finish_entry :: "work \<Rightarrow> db \<times> (change list \<times> string \<times> bool) option" where
  "finish_entry w =
     (if w_changes w \<noteq> [] then
        (let ev = \<lparr>ev_doc = w_name w, ev_type = ''sync_from_rfc_editor'', ev_rev = doc_rev (w_doc w),
                   ev_time = None, ev_link = None, ev_changes = w_changes w\<rparr>;
             s = save_event ev (w_db w);
             s = save_with_history (w_name w) (w_doc w) s
         in (s, Some (w_changes w, w_name w, w_rfc_published w)))
      else (w_db w, None))"

text \<open>Sequencing of steps that may raise.\<close>

definition and_then :: "py_error + 'a \<Rightarrow> ('a \<Rightarrow> py_error + 'b) \<Rightarrow> py_error + 'b" where
  "and_then r f = (case r of Inl err \<Rightarrow> Inl err | Inr x \<Rightarrow> f x)"

text \<open>The body of the loop for one entry that is not skipped (lines 386 to 553).\<close>

definition index_entry_body :: "action_holders \<Rightarrow> datetime \<Rightarrow> (string \<Rightarrow> erratum list option)
    \<Rightarrow> index_entry \<Rightarrow> db \<Rightarrow> py_error + (db \<times> (change list \<times> string \<times> bool) option)" where
  "index_entry_body uah now errata e s =
     and_then (resolve_document s e) (\<lambda>w.
     and_then (check_pages e (check_abstract e (check_title e w))) (\<lambda>w.
     and_then (check_std_level e w) (\<lambda>w.
     and_then (check_stream e (check_state w)) (\<lambda>w.
     and_then (check_group e w) (\<lambda>w.
     and_then (published_event now e w) (\<lambda>w.
     Inr (finish_entry
            (errata_tags errata e
              (also_aliases e
                (relations ''updates'' (i_updates e)
                  (relations ''obs'' (i_obsoletes e)
                    (stream_states uah w))))))))))))"

text \<open>Dates compare as tuples; line 379 skips an entry older than the cut-off date.\<close>

definition date_less :: "date \<Rightarrow> date \<Rightarrow> bool" where
  "date_less a b =
     (case (a, b) of ((y, m, d), (y', m', d')) \<Rightarrow>
        y < y' \<or> (y = y' \<and> (m < m' \<or> (m = m' \<and> d < d'))))"

definition skipped :: "date option \<Rightarrow> index_entry \<Rightarrow> bool" where
  "skipped skip_older_than_date e =
     (case skip_older_than_date of
        None \<Rightarrow> False
      | Some cutoff \<Rightarrow> date_less (i_rfc_published_date e) cutoff)"

text \<open>
  The generator, run to its end: the database after the run and the tuples yielded, in
  order. When an entry raises, the run ends with that exception.
\<close>

fun index_loop :: "action_holders \<Rightarrow> datetime \<Rightarrow> (string \<Rightarrow> erratum list option) \<Rightarrow> date option
    \<Rightarrow> index_entry list \<Rightarrow> db \<Rightarrow> py_error + (db \<times> (change list \<times> string \<times> bool) list)" where
  "index_loop uah now errata skip [] s = Inr (s, [])"
| "index_loop uah now errata skip (e # es) s =
     (if skipped skip e then index_loop uah now errata skip es s
      else
        case index_entry_body uah now errata e s of
          Inl err \<Rightarrow> Inl err
        | Inr (s', y) \<Rightarrow>
            (case index_loop uah now errata skip es s' of
               Inl err \<Rightarrow> Inl err
             | Inr (s'', ys) \<Rightarrow> Inr (s'', (case y of None \<Rightarrow> [] | Some x \<Rightarrow> [x]) @ ys)))"

definition update_docs_from_rfc_index :: "action_holders \<Rightarrow> datetime \<Rightarrow> index_entry list
    \<Rightarrow> erratum list \<Rightarrow> date option \<Rightarrow> db \<Rightarrow> py_error + (db \<times> (change list \<times> string \<times> bool) list)" where
  "update_docs_from_rfc_index uah now index_data errata_data skip_older_than_date s =
     index_loop uah now (group_errata errata_data) skip_older_than_date index_data s"

text \<open>
  Predicates used to state the properties of the index reconciler.
  \<open>adds_fresh old new\<close>: \<open>new\<close> is \<open>old\<close> followed by rows that are pairwise distinct and
  not in \<open>old\<close>. \<open>entry_document s e\<close>: the document that the alias \<open>rfc<number>\<close> of the
  entry \<open>e\<close> names in \<open>s\<close>, as lines 393 to 395 read it. \<open>relations_settled s e\<close>: every
  alias that the identifiers of \<open>obsoletes\<close> and \<open>updates\<close> name in \<open>s\<close> has its edge from
  the document of \<open>e\<close>. The next five say that one part of the database agrees with the
  entry, so that the step of the loop body for that part changes nothing: the fields
  compared in lines 413 to 436, the group, the states set in lines 429 to 486, the aliases
  of \<open>also\<close>, and the two errata tags; \<open>entry_settled\<close> is their conjunction for the
  document \<open>dn\<close>. \<open>kept dn s s'\<close>: \<open>s'\<close> has the aliases and the events of \<open>s\<close> and then
  possibly more, the same groups, and the states, tags and row of every document other
  than \<open>dn\<close> as in \<open>s\<close>.
\<close>

definition adds_fresh :: "'a list \<Rightarrow> 'a list \<Rightarrow> bool" where
  "adds_fresh old new =
     (take (length old) new = old \<and> distinct (drop (length old) new)
      \<and> set (drop (length old) new) \<inter> set old = {})"

definition entry_document :: "db \<Rightarrow> index_entry \<Rightarrow> string option" where
  "entry_document s e =
     (case filter (\<lambda>(n, ds). n = ''rfc'' @ str_of_int (i_rfc_number e)) (docalias s) of
        (n, dn # _) # _ \<Rightarrow> Some dn
      | _ \<Rightarrow> None)"

definition relations_settled :: "db \<Rightarrow> index_entry \<Rightarrow> bool" where
  "relations_settled s e =
     (case entry_document s e of
        None \<Rightarrow> True
      | Some dn \<Rightarrow>
          (\<forall>x \<in> set (parse_relation_list s (i_obsoletes e)). (dn, x, ''obs'') \<in> set (relateddocument s))
        \<and> (\<forall>x \<in> set (parse_relation_list s (i_updates e)). (dn, x, ''updates'') \<in> set (relateddocument s)))"

definition fields_settled :: "index_entry \<Rightarrow> doc_fields \<Rightarrow> bool" where
  "fields_settled e d =
     (doc_title d = i_title e
      \<and> (i_abstract e = [] \<or> doc_abstract d = i_abstract e)
      \<and> (i_pages e = [] \<or> (py_int (i_pages e) \<noteq> None \<and> doc_pages d = py_int (i_pages e)))
      \<and> map_of std_level_mapping (i_current_status e) \<noteq> None
      \<and> doc_std_level d = map_of std_level_mapping (i_current_status e)
      \<and> map_of stream_mapping (i_stream e) \<noteq> None
      \<and> doc_stream d = map_of stream_mapping (i_stream e))"

definition group_settled :: "db \<Rightarrow> index_entry \<Rightarrow> doc_fields \<Rightarrow> bool" where
  "group_settled s e d =
     (doc_group d \<noteq> None
      \<or> ((i_wg e = None \<or> i_wg e = Some [])
          \<and> \<not> isl (get_one (filter (\<lambda>(acronym, type). type = ''individ'') (groups s)))))"

definition states_settled :: "db \<Rightarrow> string \<Rightarrow> bool" where
  "states_settled s dn =
     (get_state s dn ''draft'' = Some ''rfc''
      \<and> get_state s dn ''draft-iesg'' \<in> {Some ''pub'', Some ''idexists''}
      \<and> get_state s dn ''draft-stream-iab'' \<in> {None, Some ''pub'', Some ''idexists''}
      \<and> get_state s dn ''draft-stream-irtf'' \<in> {None, Some ''pub'', Some ''idexists''}
      \<and> get_state s dn ''draft-stream-ise'' \<in> {None, Some ''pub'', Some ''idexists''})"

definition aliases_settled :: "db \<Rightarrow> index_entry \<Rightarrow> bool" where
  "aliases_settled s e =
     (\<forall>a \<in> set (i_also e). filter (\<lambda>(n, ds). n = py_lower a) (docalias s) \<noteq> [])"

definition tags_settled :: "(string \<Rightarrow> erratum list option) \<Rightarrow> db \<Rightarrow> index_entry \<Rightarrow> string \<Rightarrow> bool" where
  "tags_settled errata s e dn =
     (let doc_errata = (case errata (''RFC'' @ fmt_04d (i_rfc_number e)) of None \<Rightarrow> [] | Some l \<Rightarrow> l);
          all_rejected = (doc_errata \<noteq> [] \<and> (\<forall>er \<in> set doc_errata. errata_status_code er = ''Rejected''))
      in if i_has_errata e \<and> \<not> all_rejected
         then ''errata'' \<in> set (doc_tags s dn)
            \<and> ((\<exists>er \<in> set doc_errata. errata_status_code er = ''Verified'')
                 \<longrightarrow> ''verified-errata'' \<in> set (doc_tags s dn))
         else ''errata'' \<notin> set (doc_tags s dn) \<and> ''verified-errata'' \<notin> set (doc_tags s dn))"

definition entry_settled :: "(string \<Rightarrow> erratum list option) \<Rightarrow> db \<Rightarrow> index_entry \<Rightarrow> string \<Rightarrow> bool" where
  "entry_settled errata s e dn =
     (case map_of (documents s) dn of
        None \<Rightarrow> False
      | Some d \<Rightarrow>
          fields_settled e d \<and> group_settled s e d \<and> states_settled s dn
        \<and> latest_event s dn ''published_rfc'' \<and> aliases_settled s e \<and> tags_settled errata s e dn)"

definition kept :: "string \<Rightarrow> db \<Rightarrow> db \<Rightarrow> bool" where
  "kept dn s s' =
     ((\<exists>extra. docalias s' = docalias s @ extra)
      \<and> (\<exists>extra. docevents s' = docevents s @ extra)
      \<and> groups s' = groups s
      \<and> (\<forall>n. n \<noteq> dn \<longrightarrow> doc_states s' n = doc_states s n \<and> doc_tags s' n = doc_tags s n
                \<and> map_of (documents s') n = map_of (documents s) n))"

text \<open>
  A database and a queue used in the examples: two drafts with an editorial-queue state,
  \<open>draft-a\<close> in state \<open>edit\<close> with the given tags and \<open>draft-b\<close> in state \<open>auth\<close>,
  each with an alias of its own name; \<open>queue_run_example\<close> is a run whose queue holds
  \<open>draft-a\<close> alone, in the state \<open>EDIT\<close> that it already has.
\<close>

definition blank_draft :: doc_fields where
  "blank_draft = \<lparr>doc_type = ''draft'', doc_title = [], doc_abstract = [], doc_pages = None,
     doc_std_level = None, doc_stream = None, doc_group = None, doc_rev = ''00''\<rparr>"

definition queue_db :: "string list \<Rightarrow> db" where
  "queue_db a_tags = \<lparr>documents = [(''draft-a'', blank_draft), (''draft-b'', blank_draft)],
     doc_states = (\<lambda>n. if n = ''draft-a'' then [''draft-rfceditor'' \<mapsto> ''edit'']
                        else if n = ''draft-b'' then [''draft-rfceditor'' \<mapsto> ''auth''] else Map.empty),
     doc_tags = (\<lambda>n. if n = ''draft-a'' then a_tags else []),
     docalias = [(''draft-a'', [''draft-a'']), (''draft-b'', [''draft-b''])],
     relateddocument = [], docevents = [], documenturl = [],
     doctagname = [''iana'', ''ref'', ''need-rev''],
     groups = [], outbox = []\<rparr>"

definition queue_item :: "string \<Rightarrow> string \<Rightarrow> string list \<Rightarrow> queue_entry" where
  "queue_item n st tgs = \<lparr>q_name = n, q_date_received = [], q_state = st, q_tags = tgs,
     q_missref_generation = [], q_stream = None, q_auth48 = [], q_cluster = [], q_refs = []\<rparr>"

definition no_holders :: action_holders where
  "no_holders = (\<lambda>name prev next. None)"

definition queue_run_example :: "py_error + (db \<times> string set \<times> string list)" where
  "queue_run_example =
     update_drafts_from_queue no_holders [queue_item ''draft-a'' ''EDIT'' []] (queue_db [])"

text \<open>
  The database and the entries of the examples for the index reconciler: the documents
  \<open>rfc7\<close> and \<open>rfc5\<close> are published RFCs with an alias of their own name, and \<open>rfc7\<close>
  carries the given tags; \<open>rfc_entry\<close> is an index entry of the IETF stream with the
  status \<open>Proposed Standard\<close>, for which the feed reports errata. \<open>w_rfc7\<close>, \<open>w_titled\<close>
  and \<open>w_rfc9\<close> are the variables of the loop body after the lookup of the document, and
  after the title has changed. The runs: one entry with one erratum, verified or rejected;
  one entry with an empty abstract and page count; one entry that obsoletes \<open>RFC5\<close>; an
  entry for a document that carries \<open>verified-errata\<close> alone, and one for a document with
  no tag and no erratum on record; an entry for which the feed reports no errata, with a
  verified erratum on record; an index in which the entry for \<open>rfc7\<close> obsoletes
  \<open>RFC9\<close>, whose own entry comes after it, run twice; and an index with two entries
  for \<open>rfc7\<close> that differ in the title, run twice.
\<close>

definition published_doc :: doc_fields where
  "published_doc =
     \<lparr>doc_type = ''draft'', doc_title = ''Old title'', doc_abstract = ''Kept abstract'',
      doc_pages = Some 10, doc_std_level = Some ''ps'', doc_stream = Some ''ietf'',
      doc_group = Some ''tls'', doc_rev = ''05''\<rparr>"

definition index_db :: "string list \<Rightarrow> db" where
  "index_db rfc7_tags =
     \<lparr>documents = [(''rfc7'', published_doc), (''rfc5'', published_doc)],
      doc_states = (\<lambda>n. if n = ''rfc7'' \<or> n = ''rfc5''
                         then [''draft'' \<mapsto> ''rfc'', ''draft-iesg'' \<mapsto> ''pub''] else Map.empty),
      doc_tags = (\<lambda>n. if n = ''rfc7'' then rfc7_tags else []),
      docalias = [(''rfc7'', [''rfc7'']), (''rfc5'', [''rfc5''])],
      relateddocument = [],
      docevents = [\<lparr>ev_doc = ''rfc7'', ev_type = ''published_rfc'', ev_rev = ''05'', ev_time = None,
                    ev_link = None, ev_changes = []\<rparr>,
                   \<lparr>ev_doc = ''rfc5'', ev_type = ''published_rfc'', ev_rev = ''05'', ev_time = None,
                    ev_link = None, ev_changes = []\<rparr>],
      documenturl = [],
      doctagname = [''iana'', ''ref'', ''errata'', ''verified-errata''],
      groups = [(''none'', ''individ''), (''tls'', ''wg'')],
      outbox = []\<rparr>"

definition rfc_entry :: "int \<Rightarrow> string \<Rightarrow> string \<Rightarrow> string \<Rightarrow> string list \<Rightarrow> string list \<Rightarrow> index_entry" where
  "rfc_entry n ttl abstract_text page_count obs als =
     \<lparr>i_rfc_number = n, i_title = ttl, i_authors = [], i_rfc_published_date = (2024, 3, 1),
      i_current_status = ''Proposed Standard'', i_updates = [], i_updated_by = [],
      i_obsoletes = obs, i_obsoleted_by = [], i_also = als, i_draft = [], i_has_errata = True,
      i_stream = ''IETF'', i_wg = Some ''tls'', i_file_formats = ''ascii'', i_pages = page_count,
      i_abstract = abstract_text\<rparr>"

definition example_now :: datetime where
  "example_now = \<lparr>dt_date = (2024, 4, 2), dt_micro = 5\<rparr>"

definition verified_run :: "py_error + (db \<times> (change list \<times> string \<times> bool) option)" where
  "verified_run =
     index_entry_body no_holders example_now
       (group_errata [\<lparr>doc_id = ''RFC0007'', errata_status_code = ''Verified''\<rparr>])
       (rfc_entry 7 ''New title'' [] [] [] []) (index_db [''errata''])"

definition rejected_run :: "py_error + (db \<times> (change list \<times> string \<times> bool) option)" where
  "rejected_run =
     index_entry_body no_holders example_now
       (group_errata [\<lparr>doc_id = ''RFC0007'', errata_status_code = ''Rejected''\<rparr>])
       (rfc_entry 7 ''New title'' [] [] [] []) (index_db [''errata''])"

definition w_rfc7 :: "string list \<Rightarrow> work" where
  "w_rfc7 tgs = \<lparr>w_db = index_db tgs, w_name = ''rfc7'', w_doc = published_doc, w_changes = [],
                 w_events = [], w_rfc_published = False\<rparr>"

definition w_titled :: "string list \<Rightarrow> work" where
  "w_titled tgs = (w_rfc7 tgs)\<lparr>w_doc := published_doc\<lparr>doc_title := ''New title''\<rparr>,
                               w_changes := [Changed_title ''New title'']\<rparr>"

definition empty_fields_run :: "py_error + (db \<times> (change list \<times> string \<times> bool) option)" where
  "empty_fields_run =
     index_entry_body no_holders example_now (group_errata [])
       (rfc_entry 7 ''New title'' [] [] [] []) (index_db [''errata''])"

definition relations_run :: "py_error + (db \<times> (change list \<times> string \<times> bool) list)" where
  "relations_run =
     update_docs_from_rfc_index no_holders example_now
       [rfc_entry 7 ''New title'' [] [] [''RFC5''] []] [] None (index_db [''errata''])"

definition verified_only_run :: "py_error + (db \<times> (change list \<times> string \<times> bool) option)" where
  "verified_only_run =
     index_entry_body no_holders example_now
       (group_errata [\<lparr>doc_id = ''RFC0007'', errata_status_code = ''Rejected''\<rparr>])
       (rfc_entry 7 ''New title'' [] [] [] []) (index_db [''verified-errata''])"

definition no_records_run :: "py_error + (db \<times> (change list \<times> string \<times> bool) option)" where
  "no_records_run =
     index_entry_body no_holders example_now (group_errata [])
       (rfc_entry 7 ''New title'' [] [] [] []) (index_db [])"

definition forward_index :: "index_entry list" where
  "forward_index =
     [rfc_entry 7 ''Old title'' [] [] [''RFC9''] [], rfc_entry 9 ''Nine'' [] [] [] []]"

definition forward_first :: "py_error + (db \<times> (change list \<times> string \<times> bool) list)" where
  "forward_first =
     update_docs_from_rfc_index no_holders example_now forward_index [] None (index_db [''errata''])"

definition forward_second :: "py_error + (db \<times> (change list \<times> string \<times> bool) list)" where
  "forward_second =
     update_docs_from_rfc_index no_holders example_now forward_index [] None (fst (projr forward_first))"

definition w_rfc9 :: "string list \<Rightarrow> work" where
  "w_rfc9 tgs =
     \<lparr>w_db = (index_db tgs)\<lparr>documents := documents (index_db tgs) @ [(''rfc9'', new_document)],
                             docalias := docalias (index_db tgs) @ [(''rfc9'', [''rfc9''])]\<rparr>,
      w_name = ''rfc9'', w_doc = new_document,
      w_changes = [Created_document ''rfc9'', Created_alias ''rfc9''],
      w_events = [], w_rfc_published = False\<rparr>"

definition repeated_index :: "index_entry list" where
  "repeated_index =
     [rfc_entry 7 ''New title'' [] [] [] [], rfc_entry 7 ''Old title'' [] [] [] []]"

definition repeated_first :: "py_error + (db \<times> (change list \<times> string \<times> bool) list)" where
  "repeated_first =
     update_docs_from_rfc_index no_holders example_now repeated_index [] None (index_db [''errata''])"

definition repeated_second :: "py_error + (db \<times> (change list \<times> string \<times> bool) list)" where
  "repeated_second =
     update_docs_from_rfc_index no_holders example_now repeated_index [] None (fst (projr repeated_first))"

definition unflagged_run :: "py_error + (db \<times> (change list \<times> string \<times> bool) option)" where
  "unflagged_run =
     index_entry_body no_holders example_now
       (group_errata [\<lparr>doc_id = ''RFC0007'', errata_status_code = ''Verified''\<rparr>])
       ((rfc_entry 7 ''Old title'' [] [] [] [])\<lparr>i_has_errata := False\<rparr>) (index_db [])"

section \<open>The outbound notifier: \<open>post_approved_draft\<close>\<close>

text \<open>
  \<open>requests.post\<close> either returns a response, of which the function reads \<open>status_code\<close>
  and \<open>text\<close>, or raises; the exception is caught by \<open>except Exception as e\<close> and only
  \<open>str(e)\<close> is used, so a raised exception is represented by that string.
\<close>

datatype http_outcome =
    Response int string
  | Raised string

text \<open>
  The body of the \<open>try\<close> block: the value is \<open>None\<close> when the block completes, and
  \<open>Some msg\<close> when an exception with \<open>str(e) = msg\<close> leaves it.
\<close>

definition post_try_block :: "http_outcome \<Rightarrow> string option" where
  "post_try_block r =
     (case r of
        Raised msg \<Rightarrow> Some msg
      | Response status_code body \<Rightarrow>
          if status_code \<noteq> 200 then
            Some (''Status code is not 200 OK (it's '' @ str_of_int status_code @ '').'')
          else if body \<noteq> ''OK'' then
            Some (''Response is not \"OK\" (it's \"'' @ body @ ''\").'')
          else None)"

text \<open>
  \<open>text = error = ""\<close> before the \<open>try\<close>; the handler assigns \<open>error = str(e)\<close>; nothing
  assigns \<open>text\<close>; the function ends with \<open>return text, error\<close>.
\<close>

definition post_approved_draft :: "string \<Rightarrow> string \<Rightarrow> http_outcome \<Rightarrow> string \<times> string" where
  "post_approved_draft url name r =
     (let text = ''''; error = '''' in
      case post_try_block r of
        Some msg \<Rightarrow> (text, msg)
      | None \<Rightarrow> (text, error))"

section \<open>Properties of the queue parser\<close>

declare py_remove.simps(2) [simp del] contains.simps(2) [simp del]

lemma py_remove_pair:
  "py_remove [a, b] (c # d # cs) =
     (if c = a \<and> d = b then py_remove [a, b] cs else c # py_remove [a, b] (d # cs))"
  "py_remove [a, b] [c] = [c]"
  by (auto simp: startswith_def py_remove.simps(2))

lemma contains_pair:
  "contains (c # d # cs) [a, b] = ((c = a \<and> d = b) \<or> contains (d # cs) [a, b])"
  "contains [c] [a, b] = False"
  by (auto simp: startswith_def contains.simps(2))

lemma py_remove_pair_neq: "c \<noteq> a \<Longrightarrow> py_remove [a, b] (c # cs) = c # py_remove [a, b] cs"
  by (cases cs) (auto simp: startswith_def py_remove.simps(2))

lemmas pair_simps = py_remove_pair contains_pair py_remove_pair_neq

lemma remove_R_keeps_A: "contains s ''*A'' \<Longrightarrow> contains (py_remove ''*R'' s) ''*A''"
proof (induction s rule: length_induct)
  case (1 s)
  show ?case
  proof (cases s)
    case Nil
    with 1 show ?thesis by simp
  next
    case s1: (Cons c s')
    show ?thesis
    proof (cases s')
      case Nil
      with 1 s1 show ?thesis by (simp add: pair_simps)
    next
      case s2: (Cons d cs)
      have ih1: "contains cs ''*A'' \<Longrightarrow> contains (py_remove ''*R'' cs) ''*A''"
        using 1(1) s1 s2 by simp
      have ih2: "contains (d # cs) ''*A'' \<Longrightarrow> contains (py_remove ''*R'' (d # cs)) ''*A''"
        using 1(1) s1 s2 by simp
      show ?thesis
      proof (cases "c = CHR ''*'' \<and> d = CHR ''R''")
        case True
        then have "contains cs ''*A''"
          using 1(2) s1 s2 by (cases cs) (auto simp: pair_simps)
        with True ih1 show ?thesis by (simp add: s1 s2 pair_simps)
      next
        case False
        show ?thesis
        proof (cases "c = CHR ''*'' \<and> d = CHR ''A''")
          case True
          then show ?thesis
            by (simp add: s1 s2 pair_simps)
        next
          case notA: False
          then have "contains (d # cs) ''*A''"
            using 1(2) s1 s2 by (auto simp: pair_simps)
          then have "contains (py_remove ''*R'' (d # cs)) ''*A''" by (rule ih2)
          then show ?thesis
            using False by (auto simp: s1 s2 py_remove_pair contains.simps(2))
        qed
      qed
    qed
  qed
qed

lemma stars_mark_tl: "stars_mark (c # cs) \<Longrightarrow> stars_mark cs"
  by (cases cs) auto

lemma remove_RA_strip: "stars_mark s \<Longrightarrow> py_remove ''*A'' (py_remove ''*R'' s) = strip_markers s"
proof (induction s rule: strip_markers.induct)
  case (1 c d cs)
  have tl: "stars_mark (d # cs)" using 1(3) by simp
  show ?case
  proof (cases "c = CHR ''*''")
    case True
    then have d: "d = CHR ''R'' \<or> d = CHR ''A''" using 1(3) by simp
    have "stars_mark cs" using tl by (rule stars_mark_tl)
    then have "py_remove ''*A'' (py_remove ''*R'' cs) = strip_markers cs"
      using 1(1) True d by simp
    then show ?thesis using True d by (auto simp: py_remove_pair py_remove_pair_neq)
  next
    case False
    then have "py_remove ''*A'' (py_remove ''*R'' (d # cs)) = strip_markers (d # cs)"
      using 1(2) tl by simp
    then show ?thesis using False by (simp add: py_remove_pair_neq)
  qed
qed (simp_all add: py_remove_pair)

lemma remove_AR_strip: "stars_mark s \<Longrightarrow> py_remove ''*R'' (py_remove ''*A'' s) = strip_markers s"
proof (induction s rule: strip_markers.induct)
  case (1 c d cs)
  have tl: "stars_mark (d # cs)" using 1(3) by simp
  show ?case
  proof (cases "c = CHR ''*''")
    case True
    then have d: "d = CHR ''R'' \<or> d = CHR ''A''" using 1(3) by simp
    have "stars_mark cs" using tl by (rule stars_mark_tl)
    then have "py_remove ''*R'' (py_remove ''*A'' cs) = strip_markers cs"
      using 1(1) True d by simp
    then show ?thesis using True d by (auto simp: py_remove_pair py_remove_pair_neq)
  next
    case False
    then have "py_remove ''*R'' (py_remove ''*A'' (d # cs)) = strip_markers (d # cs)"
      using 1(2) tl by simp
    then show ?thesis using False by (simp add: py_remove_pair_neq)
  qed
qed (simp_all add: py_remove_pair)

lemma strip_no_star: "stars_mark s \<Longrightarrow> CHR ''*'' \<notin> set (strip_markers s)"
proof (induction s rule: strip_markers.induct)
  case (1 c d cs)
  then show ?case using stars_mark_tl[of d cs] by (auto)
qed auto

lemma set_py_remove: "set (py_remove p s) \<subseteq> set s"
proof (induction p s rule: py_remove.induct)
  case (1 p)
  then show ?case by simp
next
  case (2 p c cs)
  show ?case
  proof (cases "p \<noteq> [] \<and> startswith (c # cs) p")
    case True
    then have "set (py_remove p (c # cs)) \<subseteq> set (drop (length p) (c # cs))"
      using 2(1) by (simp add: py_remove.simps(2))
    also have "\<dots> \<subseteq> set (c # cs)" by (rule set_drop_subset)
    finally show ?thesis .
  next
    case False
    then show ?thesis using 2(2) by (auto simp: py_remove.simps(2))
  qed
qed

lemma count_list_drop_le: "count_list (drop n xs) c \<le> count_list xs c"
proof -
  have "count_list xs c = count_list (take n xs) c + count_list (drop n xs) c"
    by (metis append_take_drop_id count_list_append)
  then show ?thesis by simp
qed

lemma count_list_py_remove_le: "count_list (py_remove p s) c \<le> count_list s c"
proof (induction p s rule: py_remove.induct)
  case (1 p)
  then show ?case by simp
next
  case (2 p x xs)
  show ?case
  proof (cases "p \<noteq> [] \<and> startswith (x # xs) p")
    case True
    then have "count_list (py_remove p (x # xs)) c \<le> count_list (drop (length p) (x # xs)) c"
      using 2(1) by (simp add: py_remove.simps(2))
    also have "\<dots> \<le> count_list (x # xs) c" by (rule count_list_drop_le)
    finally show ?thesis .
  next
    case False
    then show ?thesis using 2(2) by (auto simp: py_remove.simps(2))
  qed
qed

lemma count_list_0_iff: "count_list xs c = 0 \<longleftrightarrow> c \<notin> set xs"
  by (induction xs) auto

lemma contains_count_pos: "contains s (a # p) \<Longrightarrow> 0 < count_list s a"
proof (induction s)
  case Nil
  then show ?case by simp
next
  case (Cons x xs)
  then show ?case by (auto simp: contains.simps(2) startswith_def)
qed

lemma py_remove_single_paren:
  "count_list s a \<le> 1 \<Longrightarrow> contains s (a # p) \<Longrightarrow> a \<notin> set (py_remove (a # p) s)"
proof (induction s)
  case Nil
  then show ?case by simp
next
  case (Cons x xs)
  show ?case
  proof (cases "startswith (x # xs) (a # p)")
    case True
    then have xa: "x = a" by (simp add: startswith_def)
    then have "count_list xs a = 0" using Cons.prems(1) by simp
    then have "a \<notin> set xs" by (simp add: count_list_0_iff)
    then have "a \<notin> set (drop (length (a # p)) (x # xs))"
      by (auto dest: in_set_dropD)
    then have "a \<notin> set (py_remove (a # p) (drop (length (a # p)) (x # xs)))"
      using set_py_remove by blast
    then show ?thesis using True by (simp add: py_remove.simps(2))
  next
    case False
    then have c: "contains xs (a # p)" using Cons.prems(2) by (simp add: contains.simps(2))
    then have "0 < count_list xs a" by (rule contains_count_pos)
    then have "x \<noteq> a" using Cons.prems(1) by (auto split: if_splits)
    moreover have "count_list xs a \<le> 1" using Cons.prems(1) by (auto split: if_splits)
    ultimately show ?thesis using Cons.IH c False by (simp add: py_remove.simps(2))
  qed
qed

lemma startswith_append_same: "startswith (a @ b) (a @ p) = startswith b p"
  by (simp add: startswith_def)

lemma search_generation_contains:
  "search_generation t = Some g \<Longrightarrow> contains t (CHR ''('' # g @ ''G)'')"
proof (induction t)
  case Nil
  then show ?case by simp
next
  case (Cons x xs)
  show ?case
  proof (cases "x = CHR ''('' \<and> takeWhile is_digit xs \<noteq> [] \<and> startswith (dropWhile is_digit xs) ''G)''")
    case True
    then have g: "g = takeWhile is_digit xs" using Cons.prems by simp
    have "startswith (takeWhile is_digit xs @ dropWhile is_digit xs) (takeWhile is_digit xs @ ''G)'')"
      using True by (simp only: startswith_append_same)
    then have "startswith xs (g @ ''G)'')" by (simp add: g)
    then have "startswith (x # xs) (CHR ''('' # g @ ''G)'')"
      using True by (simp add: startswith_def)
    then show ?thesis by (simp add: contains.simps(2))
  next
    case False
    then have "search_generation xs = Some g" using Cons.prems by auto
    then show ?thesis using Cons.IH by (simp add: contains.simps(2))
  qed
qed

lemma state_loop_skip: "no_state_element pre \<Longrightarrow> state_loop (pre @ rest) acc = state_loop rest acc"
proof (induction pre)
  case Nil
  then show ?case by simp
next
  case (Cons x xs)
  then show ?case by (cases x; cases acc) (auto simp: no_state_element_def)
qed

lemma state_loop_no_state: "no_state_element post \<Longrightarrow> state_loop post acc = Inr acc"
  using state_loop_skip[of post "[]" acc] by simp

lemma search_generation_no_paren: "CHR ''('' \<notin> set t \<Longrightarrow> search_generation t = None"
  by (induction t) auto

text \<open>
  C9 (amended): for an entry whose single \<open>state\<close> element has a text \<open>s\<close> containing both
  \<open>*R\<close> and \<open>*A\<close>, the parser yields the tags \<open>ref\<close> and \<open>iana\<close>; the state string is
  \<open>s\<close> with the occurrences of \<open>*R\<close> deleted, then those of \<open>*A\<close>, then those of the
  leftmost generation marker, and the generation counter is the one of that marker. When
  every asterisk of \<open>s\<close> opens a marker, deleting \<open>*R\<close> then \<open>*A\<close> and deleting \<open>*A\<close>
  then \<open>*R\<close> both give \<open>s\<close> with its two-character markers deleted in one pass, so that
  the state string is that text without its generation marker, and it contains no asterisk,
  hence neither marker. When \<open>s\<close> has at most one opening parenthesis, the state string
  contains no generation marker, and no opening parenthesis when a generation marker was
  found.
\<close>

theorem parse_queue_both_markers:
  assumes R: "contains s ''*R''" and A: "contains s ''*A''"
    and pre: "no_state_element pre" and post: "no_state_element post"
  shows "entry_state (pre @ Element ''state'' (Some s) # post)
           = Inr (without_generation (py_remove ''*A'' (py_remove ''*R'' s)), [''ref'', ''iana''],
                  generation (py_remove ''*A'' (py_remove ''*R'' s)))
       \<and> (stars_mark s \<longrightarrow>
             entry_state (pre @ Element ''state'' (Some s) # post)
               = Inr (without_generation (strip_markers s), [''ref'', ''iana''], generation (strip_markers s))
           \<and> py_remove ''*A'' (py_remove ''*R'' s) = strip_markers s
           \<and> py_remove ''*R'' (py_remove ''*A'' s) = strip_markers s
           \<and> CHR ''*'' \<notin> set (without_generation (strip_markers s)))
       \<and> (count_list s CHR ''('' \<le> 1 \<longrightarrow>
             search_generation (without_generation (py_remove ''*A'' (py_remove ''*R'' s))) = None
           \<and> (generation (py_remove ''*A'' (py_remove ''*R'' s)) \<noteq> [] \<longrightarrow>
                CHR ''('' \<notin> set (without_generation (py_remove ''*A'' (py_remove ''*R'' s)))))"
proof -
  define t where "t = py_remove ''*A'' (py_remove ''*R'' s)"
  have A': "contains (py_remove ''*R'' s) ''*A''" using A by (rule remove_R_keeps_A)
  have dec: "decode_state s [] [] = (without_generation t, [''ref'', ''iana''], generation t)"
    using R A'
    by (simp add: decode_state_def t_def without_generation_def generation_def split: option.split)
  have run: "entry_state (pre @ Element ''state'' (Some s) # post)
      = Inr (without_generation t, [''ref'', ''iana''], generation t)"
    using pre post by (simp add: entry_state_def state_loop_skip state_loop_no_state dec)
  have sub: "set (without_generation x) \<subseteq> set x" for x
    using set_py_remove by (auto simp: without_generation_def split: option.split)
  have star: "entry_state (pre @ Element ''state'' (Some s) # post)
               = Inr (without_generation (strip_markers s), [''ref'', ''iana''], generation (strip_markers s))
           \<and> py_remove ''*A'' (py_remove ''*R'' s) = strip_markers s
           \<and> py_remove ''*R'' (py_remove ''*A'' s) = strip_markers s
           \<and> CHR ''*'' \<notin> set (without_generation (strip_markers s))"
    if H: "stars_mark s"
  proof -
    have ts: "t = strip_markers s" using H by (simp add: t_def remove_RA_strip)
    have "CHR ''*'' \<notin> set (strip_markers s)" using H by (rule strip_no_star)
    then have "CHR ''*'' \<notin> set (without_generation (strip_markers s))"
      using sub[of "strip_markers s"] by blast
    then show ?thesis
      using run ts remove_AR_strip[OF H] by (simp add: t_def)
  qed
  have paren: "search_generation (without_generation t) = None
           \<and> (generation t \<noteq> [] \<longrightarrow> CHR ''('' \<notin> set (without_generation t))"
    if c: "count_list s CHR ''('' \<le> 1"
  proof (cases "search_generation t")
    case None
    then show ?thesis by (simp add: without_generation_def generation_def)
  next
    case (Some g')
    have "count_list t CHR ''('' \<le> count_list s CHR ''(''"
      unfolding t_def
      by (rule order_trans[OF count_list_py_remove_le count_list_py_remove_le])
    then have "count_list t CHR ''('' \<le> 1" using c by simp
    moreover have "contains t (CHR ''('' # g' @ ''G)'')" using Some by (rule search_generation_contains)
    ultimately have "CHR ''('' \<notin> set (py_remove (CHR ''('' # g' @ ''G)'') t)"
      by (rule py_remove_single_paren)
    then have np: "CHR ''('' \<notin> set (without_generation t)" by (simp add: without_generation_def Some)
    then have "search_generation (without_generation t) = None" by (rule search_generation_no_paren)
    then show ?thesis using np by simp
  qed
  show ?thesis using run star paren unfolding t_def by blast
qed

text \<open>
  The hypotheses of the theorem hold for the state text \<open>EDIT*R*A(12G)\<close>, whose state
  string is \<open>EDIT\<close> with the generation counter \<open>12\<close>.
\<close>

theorem parse_queue_both_markers_witness:
  "contains ''EDIT*R*A(12G)'' ''*R'' \<and> contains ''EDIT*R*A(12G)'' ''*A''
   \<and> no_state_element [Element ''draft'' (Some ''draft-x-01.txt'')]
   \<and> no_state_element [Other_node]
   \<and> stars_mark ''EDIT*R*A(12G)'' \<and> count_list ''EDIT*R*A(12G)'' CHR ''('' \<le> 1
   \<and> strip_markers ''EDIT*R*A(12G)'' = ''EDIT(12G)''
   \<and> without_generation ''EDIT(12G)'' = ''EDIT''
   \<and> generation ''EDIT(12G)'' = ''12''
   \<and> entry_state ([Element ''draft'' (Some ''draft-x-01.txt'')] @ Element ''state'' (Some ''EDIT*R*A(12G)'') # [Other_node])
       = Inr (''EDIT'', [''ref'', ''iana''], ''12'')"
  using parse_queue_both_markers [of "''EDIT*R*A(12G)''" "[Element ''draft'' (Some ''draft-x-01.txt'')]" "[Other_node]"]
  by (simp add: no_state_element_def without_generation_def generation_def startswith_def is_digit_def
       py_remove.simps(2) contains.simps(2))

text \<open>
  C9 as stated fails. For the state text \<open>**AR*R\<close>, which contains both markers, the code
  returns the state \<open>*R\<close>, which still contains a marker, and removing \<open>*A\<close> first gives
  the empty string instead. For \<open>*R*A((1G)1G)\<close> the code returns the state \<open>(1G)\<close>, which
  still contains a generation marker. For \<open>(1*RG)*A\<close> the code returns the empty state with
  the generation counter \<open>1\<close>, while deleting the generation marker before the two other
  markers finds none and leaves \<open>(1G)\<close>.
\<close>

theorem parse_queue_markers_counterexample:
  "contains ''**AR*R'' ''*R'' \<and> contains ''**AR*R'' ''*A''
   \<and> entry_state [Element ''state'' (Some ''**AR*R'')] = Inr (''*R'', [''ref'', ''iana''], [])
   \<and> contains ''*R'' ''*R''
   \<and> py_remove ''*R'' (py_remove ''*A'' ''**AR*R'') = []
   \<and> contains ''*R*A((1G)1G)'' ''*R'' \<and> contains ''*R*A((1G)1G)'' ''*A''
   \<and> entry_state [Element ''state'' (Some ''*R*A((1G)1G)'')] = Inr (''(1G)'', [''ref'', ''iana''], ''1'')
   \<and> search_generation ''(1G)'' = Some ''1''
   \<and> contains ''(1*RG)*A'' ''*R'' \<and> contains ''(1*RG)*A'' ''*A''
   \<and> entry_state [Element ''state'' (Some ''(1*RG)*A'')] = Inr ([], [''ref'', ''iana''], ''1'')
   \<and> py_remove ''*A'' (py_remove ''*R'' (without_generation ''(1*RG)*A'')) = ''(1G)''"
  by (simp add: entry_state_def decode_state_def startswith_def is_digit_def without_generation_def
       py_remove.simps(2) contains.simps(2))

section \<open>Properties of the queue reconciler\<close>

lemma doc_tags_preserved:
  "doc_tags (set_state n t sl s) = doc_tags s"
  "doc_tags (unset_state n t s) = doc_tags s"
  "doc_tags (save_event ev s) = doc_tags s"
  "doc_tags (save_optional_event eo s) = doc_tags s"
  "doc_tags (save_with_history n d s) = doc_tags s"
  "doc_tags (tags_set n ts s) = (doc_tags s)(n := ts)"
  by (simp_all add: set_state_def unset_state_def save_event_def save_optional_event_def
        save_with_history_def tags_set_def split: option.split)

lemma doctagname_preserved:
  "doctagname (set_state n t sl s) = doctagname s"
  "doctagname (unset_state n t s) = doctagname s"
  "doctagname (save_event ev s) = doctagname s"
  "doctagname (save_optional_event eo s) = doctagname s"
  "doctagname (save_with_history n d s) = doctagname s"
  "doctagname (tags_set n ts s) = doctagname s"
  by (simp_all add: set_state_def unset_state_def save_event_def save_optional_event_def
        save_with_history_def tags_set_def split: option.split)

text \<open>
  C4 (amended): for a known queue entry with a known state code, the tag step compares the
  set of tag names given by the queue annotations (those that exist as tag names) with the
  whole tag set of the document. When the two sets are equal the tags of the document are
  left as they are; otherwise they are replaced by the tags of the queue, so that a tag
  outside \<open>ref\<close> and \<open>iana\<close> that the document carried is removed, and the name is added
  to the changed set. The tags of every other document are unchanged.
\<close>

theorem queue_tags_replaced:
  assumes known: "q_name e \<in> set in_db"
    and state: "q_state e \<in> fst ` set state_mapping"
    and step: "queue_entry_step uah in_db rows e (s, changed, warnings) = (s', changed', warnings')"
    and t: "t = filter (\<lambda>slug. slug \<in> set (q_tags e)) (doctagname s)"
  shows "doc_tags s' (q_name e) = (if set t = set (doc_tags s (q_name e)) then doc_tags s (q_name e) else t)
      \<and> (\<forall>n. n \<noteq> q_name e \<longrightarrow> doc_tags s' n = doc_tags s n)
      \<and> (set t \<noteq> set (doc_tags s (q_name e)) \<longrightarrow> q_name e \<in> changed')"
proof -
  have ne: "q_state e \<noteq> []" using state by (auto simp: state_mapping_def)
  have some: "map_of state_mapping (q_state e) \<noteq> None"
    using state by (simp add: map_of_eq_None_iff)
  have eq: "(s', changed', warnings') = queue_entry_step uah in_db rows e (s, changed, warnings)"
    using step by simp
  show ?thesis
    using eq known ne some unfolding queue_entry_step_def t
    by (auto simp: Let_def doc_tags_preserved doctagname_preserved split: if_splits option.splits prod.splits)
qed

text \<open>The hypotheses hold for \<open>draft-a\<close> tagged \<open>need-rev\<close> and a queue entry tagged \<open>iana\<close>.\<close>

theorem queue_tags_replaced_witness:
  "q_name (queue_item ''draft-a'' ''EDIT'' [''iana'']) \<in> set [''draft-a'']
   \<and> q_state (queue_item ''draft-a'' ''EDIT'' [''iana'']) \<in> fst ` set state_mapping
   \<and> set [''iana''] \<noteq> set (doc_tags (queue_db [''need-rev'']) ''draft-a'')
   \<and> ''draft-b'' \<noteq> q_name (queue_item ''draft-a'' ''EDIT'' [''iana''])
   \<and> doc_tags (fst (queue_entry_step no_holders [''draft-a''] [(''draft-a'', blank_draft)]
         (queue_item ''draft-a'' ''EDIT'' [''iana'']) (queue_db [''need-rev''], {}, []))) ''draft-a'' = [''iana'']
   \<and> ''draft-a'' \<in> fst (snd (queue_entry_step no_holders [''draft-a''] [(''draft-a'', blank_draft)]
         (queue_item ''draft-a'' ''EDIT'' [''iana'']) (queue_db [''need-rev''], {}, [])))"
  using queue_tags_replaced [of "queue_item ''draft-a'' ''EDIT'' [''iana'']" "[''draft-a'']" no_holders
      "[(''draft-a'', blank_draft)]" "queue_db [''need-rev'']" "{}" "[]"
      "fst (queue_entry_step no_holders [''draft-a''] [(''draft-a'', blank_draft)]
         (queue_item ''draft-a'' ''EDIT'' [''iana'']) (queue_db [''need-rev''], {}, []))"
      "fst (snd (queue_entry_step no_holders [''draft-a''] [(''draft-a'', blank_draft)]
         (queue_item ''draft-a'' ''EDIT'' [''iana'']) (queue_db [''need-rev''], {}, [])))"
      "snd (snd (queue_entry_step no_holders [''draft-a''] [(''draft-a'', blank_draft)]
         (queue_item ''draft-a'' ''EDIT'' [''iana'']) (queue_db [''need-rev''], {}, [])))"
      "[''iana'']"]
  by (simp add: queue_item_def queue_db_def state_mapping_def)

text \<open>
  C4 as stated fails: \<open>draft-a\<close> carries the tag \<open>need-rev\<close>, the queue entry has no
  annotation, and after the step the document has no tag.
\<close>

theorem queue_tags_counterexample:
  "''need-rev'' \<in> set (doc_tags (queue_db [''need-rev'']) ''draft-a'')
   \<and> doc_tags (fst (queue_entry_step no_holders [''draft-a''] [(''draft-a'', blank_draft)]
         (queue_item ''draft-a'' ''EDIT'' []) (queue_db [''need-rev''], {}, []))) ''draft-a'' = []"
  by (simp add: queue_entry_step_def queue_item_def queue_db_def state_mapping_def get_state_def
        no_holders_def blank_draft_def tags_set_def Let_def)




text \<open>
  C5, evaluated on the code: the queue holds \<open>draft-a\<close> in the state it already has, and
  \<open>draft-b\<close> has left the queue. The run returns the changed set \<open>{draft-a}\<close>, although
  neither the state, the tags nor the events of \<open>draft-a\<close> have changed, and \<open>draft-b\<close>,
  whose editorial-queue state was removed, is not in the set: the second loop adds the
  variable \<open>name\<close> left by the first loop instead of the name of the document at hand.
\<close>

theorem changed_set_names_last_entry:
  "\<not> isl queue_run_example
   \<and> fst (snd (projr queue_run_example)) = {''draft-a''}
   \<and> doc_states (fst (projr queue_run_example)) ''draft-a'' = doc_states (queue_db []) ''draft-a''
   \<and> doc_tags (fst (projr queue_run_example)) ''draft-a'' = doc_tags (queue_db []) ''draft-a''
   \<and> docevents (fst (projr queue_run_example)) = docevents (queue_db [])
   \<and> doc_states (queue_db []) ''draft-b'' ''draft-rfceditor'' = Some ''auth''
   \<and> doc_states (fst (projr queue_run_example)) ''draft-b'' ''draft-rfceditor'' = None"
  by (simp add: queue_run_example_def update_drafts_from_queue_def queue_db_def queue_item_def no_holders_def
      drafts_in_db_def docs_with_alias_in_def blank_draft_def queue_entry_step_def state_mapping_def
      get_state_def left_queue_def tags_remove_def unset_state_def Let_def)

section \<open>Properties of the publication-event time\<close>

lemma month_disj:
  fixes m :: int
  shows "1 \<le> m \<Longrightarrow> m \<le> 12 \<Longrightarrow>
    m = 1 \<or> m = 2 \<or> m = 3 \<or> m = 4 \<or> m = 5 \<or> m = 6 \<or> m = 7 \<or> m = 8 \<or> m = 9 \<or> m = 10 \<or> m = 11 \<or> m = 12"
  by arith

lemma div_step_gen:
  fixes y k :: int
  assumes "0 < k"
  shows "y div k = (y - 1) div k + (if y mod k = 0 then 1 else 0)"
proof -
  define q where "q = (y - 1) div k"
  define r where "r = (y - 1) mod k"
  have r: "0 \<le> r" "r < k" using assms by (simp_all add: r_def)
  have y: "y = k * q + (r + 1)" by (simp add: q_def r_def)
  show ?thesis
  proof (cases "r + 1 = k")
    case True
    then have "y = k * (q + 1)" using y by (simp add: algebra_simps)
    then have "y div k = q + 1" "y mod k = 0" using assms by simp_all
    then show ?thesis by (simp add: q_def)
  next
    case False
    then have "r + 1 < k" "0 \<le> r + 1" using r by simp_all
    then have "y div k = q" "y mod k = r + 1"
      using y int_div_pos_eq[of y k q "r + 1"] int_mod_pos_eq[of y k q "r + 1"] by simp_all
    then show ?thesis using r by (simp add: q_def)
  qed
qed

lemma mod_chain:
  fixes y :: int
  shows "y mod 100 = 0 \<Longrightarrow> y mod 4 = 0" and "y mod 400 = 0 \<Longrightarrow> y mod 100 = 0"
proof -
  have a: "(4::int) dvd 100" and b: "(100::int) dvd 400" by simp_all
  show "y mod 100 = 0 \<Longrightarrow> y mod 4 = 0"
    using dvd_trans[OF a, of y] by (simp add: dvd_eq_mod_eq_0)
  show "y mod 400 = 0 \<Longrightarrow> y mod 100 = 0"
    using dvd_trans[OF b, of y] by (simp add: dvd_eq_mod_eq_0)
qed

lemma leap_bool:
  fixes a b c :: bool and x :: int
  assumes "b \<Longrightarrow> a" "c \<Longrightarrow> b"
  shows "x + 365 + (if a then 1 else 0) - (if b then 1 else 0) + (if c then 1 else 0)
       = x + (if a \<and> (\<not> b \<or> c) then 366 else 365)"
  using assms by (cases a; cases b; cases c) simp_all

lemma days_before_year_Suc:
  "days_before_year (y + 1) = days_before_year y + (if is_leap y then 366 else 365)"
proof -
  have d4: "y div 4 = (y - 1) div 4 + (if y mod 4 = 0 then 1 else 0)"
    by (rule div_step_gen) simp
  have d100: "y div 100 = (y - 1) div 100 + (if y mod 100 = 0 then 1 else 0)"
    by (rule div_step_gen) simp
  have d400: "y div 400 = (y - 1) div 400 + (if y mod 400 = 0 then 1 else 0)"
    by (rule div_step_gen) simp
  have "days_before_year (y + 1) = y * 365 + y div 4 - y div 100 + y div 400"
    by (simp add: days_before_year_def)
  also have "\<dots> = days_before_year y + 365 + (if y mod 4 = 0 then 1 else 0)
       - (if y mod 100 = 0 then 1 else 0) + (if y mod 400 = 0 then 1 else 0)"
    unfolding days_before_year_def d4 d100 d400 by (simp only: left_diff_distrib)
  also have "\<dots> = days_before_year y + (if is_leap y then 366 else 365)"
    unfolding is_leap_def by (rule leap_bool) (rule mod_chain, assumption)+
  finally show ?thesis .
qed

lemma days_before_month_Suc:
  assumes "1 \<le> m" "m < 12"
  shows "days_before_month y (m + 1) = days_before_month y m + days_in_month y m"
proof -
  have "m = 1 \<or> m = 2 \<or> m = 3 \<or> m = 4 \<or> m = 5 \<or> m = 6
      \<or> m = 7 \<or> m = 8 \<or> m = 9 \<or> m = 10 \<or> m = 11"
    using assms by arith
  then show ?thesis
    by (elim disjE) (simp_all add: days_before_month_def days_in_month_def)
qed

lemma days_before_month_12:
  "days_before_month y 12 + days_in_month y 12 = (if is_leap y then 366 else 365)"
  by (simp add: days_before_month_def days_in_month_def)

lemma days_before_month_1: "days_before_month y 1 = 0"
  by (simp add: days_before_month_def)

lemma year_length: "(if is_leap y then 366 else 365) = (365::int) + (if is_leap y then 1 else 0)"
  by simp

lemma days_in_month_bounds:
  assumes "1 \<le> m" "m \<le> 12"
  shows "28 \<le> days_in_month y m" "days_in_month y m \<le> 31"
  using month_disj[OF assms] by (auto simp: days_in_month_def)

lemma month_end_le_year:
  assumes "1 \<le> m" "m \<le> 12"
  shows "days_before_month y m + days_in_month y m \<le> (if is_leap y then 366 else 365)"
  using month_disj[OF assms] by (auto simp: days_before_month_def days_in_month_def)

lemma days_before_month_nonneg:
  assumes "1 \<le> m" "m \<le> 12"
  shows "0 \<le> days_before_month y m"
  using month_disj[OF assms] by (auto simp: days_before_month_def)

lemma days_before_month_mono:
  assumes "1 \<le> m" "m \<le> m'" "m' \<le> 12"
  shows "days_before_month y m \<le> days_before_month y m'"
  using assms(2,1,3)
proof (induction m' rule: int_ge_induct)
  case base
  then show ?case by simp
next
  case (step i)
  have "0 \<le> days_in_month y i" using days_in_month_bounds(1)[of i y] step by simp
  then show ?case using step days_before_month_Suc[of i y] by simp
qed

lemma days_before_year_mono:
  assumes "y \<le> y'"
  shows "days_before_year y \<le> days_before_year y'"
  using assms
proof (induction y' rule: int_ge_induct)
  case base
  then show ?case by simp
next
  case (step i)
  have "days_before_year i \<le> days_before_year (i + 1)"
    by (simp add: days_before_year_Suc)
  then show ?case using step by simp
qed

lemma ymd2ord_year_bounds:
  assumes "wf_date (y, m, d)"
  shows "days_before_year y < ymd2ord (y, m, d)" "ymd2ord (y, m, d) \<le> days_before_year (y + 1)"
proof -
  have m: "1 \<le> m" "m \<le> 12" and d: "1 \<le> d" "d \<le> days_in_month y m"
    using assms by (simp_all add: wf_date_def)
  show "days_before_year y < ymd2ord (y, m, d)"
    using days_before_month_nonneg[OF m, of y] d by (simp add: ymd2ord_def)
  have "days_before_month y m + d \<le> (if is_leap y then 366 else 365)"
    using month_end_le_year[OF m, of y] d(2) by linarith
  then show "ymd2ord (y, m, d) \<le> days_before_year (y + 1)"
    by (simp add: ymd2ord_def days_before_year_Suc)
qed

lemma ymd2ord_year_less:
  assumes "wf_date (y, m, d)" "wf_date (y', m', d')" "y < y'"
  shows "ymd2ord (y, m, d) < ymd2ord (y', m', d')"
proof -
  have "ymd2ord (y, m, d) \<le> days_before_year (y + 1)"
    using assms(1) by (rule ymd2ord_year_bounds)
  also have "\<dots> \<le> days_before_year y'"
    using assms(3) by (intro days_before_year_mono) simp
  also have "\<dots> < ymd2ord (y', m', d')"
    using assms(2) by (rule ymd2ord_year_bounds)
  finally show ?thesis .
qed

lemma ymd2ord_month_less:
  assumes "wf_date (y, m, d)" "wf_date (y, m', d')" "m < m'"
  shows "ymd2ord (y, m, d) < ymd2ord (y, m', d')"
proof -
  have m: "1 \<le> m" "m \<le> 12" and d: "1 \<le> d" "d \<le> days_in_month y m"
    using assms(1) by (simp_all add: wf_date_def)
  have m': "1 \<le> m'" "m' \<le> 12" and d': "1 \<le> d'"
    using assms(2) by (simp_all add: wf_date_def)
  have "days_before_month y m + d \<le> days_before_month y (m + 1)"
    using days_before_month_Suc[of m y] m assms(3) m' d by simp
  also have "\<dots> \<le> days_before_month y m'"
    using m assms(3) m' by (intro days_before_month_mono) simp_all
  finally show ?thesis using d' by (simp add: ymd2ord_def)
qed

lemma ymd2ord_same_month:
  assumes "wf_date (y, m, d)" "wf_date (y', m', d')" "ymd2ord (y, m, d) = ymd2ord (y', m', d')"
  shows "y = y' \<and> m = m'"
proof -
  have y: "y = y'"
    using ymd2ord_year_less[OF assms(1,2)] ymd2ord_year_less[OF assms(2,1)] assms(3)
    by (cases y y' rule: linorder_cases) simp_all
  have "m = m'"
    using ymd2ord_month_less[of y m d m' d'] ymd2ord_month_less[of y m' d' m d] assms y
    by (cases m m' rule: linorder_cases) simp_all
  with y show ?thesis by simp
qed

lemma next_day_ord:
  assumes "wf_date dt"
  shows "ymd2ord (next_day dt) = ymd2ord dt + 1" "wf_date (next_day dt)"
    "fst dt \<le> fst (next_day dt)"
proof -
  obtain y m d where dt: "dt = (y, m, d)" by (cases dt) auto
  have m: "1 \<le> m" "m \<le> 12" and d: "1 \<le> d" "d \<le> days_in_month y m"
    using assms by (simp_all add: wf_date_def dt)
  consider (a) "d < days_in_month y m" | (b) "d = days_in_month y m" "m < 12"
    | (c) "d = days_in_month y m" "m = 12"
    using d m by linarith
  then have "ymd2ord (next_day dt) = ymd2ord dt + 1 \<and> wf_date (next_day dt)
      \<and> fst dt \<le> fst (next_day dt)"
  proof cases
    case a
    then show ?thesis using m d by (simp add: dt next_day_def ymd2ord_def wf_date_def)
  next
    case b
    have "28 \<le> days_in_month y (m + 1)" using m b by (intro days_in_month_bounds) simp_all
    then show ?thesis
      using m b days_before_month_Suc[of m y]
      by (simp add: dt next_day_def ymd2ord_def wf_date_def)
  next
    case c
    then show ?thesis
      using days_before_month_12[of y]
      by (simp add: dt next_day_def ymd2ord_def wf_date_def days_before_year_Suc
            days_before_month_1) (simp add: days_in_month_def)
  qed
  then show "ymd2ord (next_day dt) = ymd2ord dt + 1" "wf_date (next_day dt)"
    "fst dt \<le> fst (next_day dt)" by simp_all
qed

lemma prev_day_ord:
  assumes "wf_date dt"
  shows "ymd2ord (prev_day dt) = ymd2ord dt - 1" "wf_date (prev_day dt)"
    "fst (prev_day dt) \<le> fst dt"
proof -
  obtain y m d where dt: "dt = (y, m, d)" by (cases dt) auto
  have m: "1 \<le> m" "m \<le> 12" and d: "1 \<le> d" "d \<le> days_in_month y m"
    using assms by (simp_all add: wf_date_def dt)
  consider (a) "1 < d" | (b) "d = 1" "1 < m" | (c) "d = 1" "m = 1"
    using d m by linarith
  then have "ymd2ord (prev_day dt) = ymd2ord dt - 1 \<and> wf_date (prev_day dt)
      \<and> fst (prev_day dt) \<le> fst dt"
  proof cases
    case a
    then show ?thesis using m d by (simp add: dt prev_day_def ymd2ord_def wf_date_def)
  next
    case b
    have "28 \<le> days_in_month y (m - 1)" using m b by (intro days_in_month_bounds) simp_all
    then show ?thesis
      using m b days_before_month_Suc[of "m - 1" y]
      by (simp add: dt prev_day_def ymd2ord_def wf_date_def)
  next
    case c
    have "days_before_year y = days_before_year (y - 1) + (if is_leap (y - 1) then 366 else 365)"
      using days_before_year_Suc[of "y - 1"] by simp
    then show ?thesis
      using days_before_month_12[of "y - 1"] c
      by (simp add: dt prev_day_def ymd2ord_def wf_date_def days_before_month_1)
         (simp add: days_in_month_def days_before_month_def)
  qed
  then show "ymd2ord (prev_day dt) = ymd2ord dt - 1" "wf_date (prev_day dt)"
    "fst (prev_day dt) \<le> fst dt" by simp_all
qed

lemma valid_date_wf: "valid_date dt = (wf_date dt \<and> 1 \<le> fst dt \<and> fst dt \<le> 9999)"
  by (cases dt) (auto simp: valid_date_def wf_date_def)

lemma same_month_of_ord:
  assumes "wf_date (dt_date s)" "wf_date (dt_date d)"
    and "ymd2ord (dt_date s) = ymd2ord (dt_date d)"
  shows "dt_month s = dt_month d \<and> dt_year s = dt_year d"
proof -
  obtain y m x where s: "dt_date s = (y, m, x)" by (cases "dt_date s") auto
  obtain y' m' x' where d: "dt_date d = (y', m', x')" by (cases "dt_date d") auto
  show ?thesis
    using ymd2ord_same_month[of y m x y' m' x'] assms
    by (simp add: s d dt_month_def dt_year_def)
qed

lemma year_le_of_ord:
  assumes "wf_date a" "wf_date b" "ymd2ord a \<le> ymd2ord b"
  shows "fst a \<le> fst b"
proof (rule ccontr)
  assume "\<not> fst a \<le> fst b"
  then have lt: "fst b < fst a" by simp
  obtain y m x where a: "a = (y, m, x)" by (cases a) auto
  obtain y' m' x' where b: "b = (y', m', x')" by (cases b) auto
  have "ymd2ord b < ymd2ord a"
    using ymd2ord_year_less[of y' m' x' y m x] assms(1,2) lt by (simp add: a b)
  then show False using assms(3) by simp
qed

lemma walk_forward:
  assumes "valid_date (dt_date d)"
  shows "valid_datetime s \<Longrightarrow> ymd2ord (dt_date s) \<le> ymd2ord (dt_date d)
    \<Longrightarrow> ymd2ord (dt_date d) - ymd2ord (dt_date s) \<le> int fuel
    \<Longrightarrow> \<exists>r. day_walk fuel 1 d s = Some (Inr r) \<and> dt_month r = dt_month d \<and> dt_year r = dt_year d"
proof (induction fuel arbitrary: s)
  case 0
  have "wf_date (dt_date s)" "wf_date (dt_date d)"
    using 0(1) assms by (simp_all add: valid_datetime_def valid_date_wf)
  moreover have "ymd2ord (dt_date s) = ymd2ord (dt_date d)" using 0 by simp
  ultimately have "dt_month s = dt_month d \<and> dt_year s = dt_year d"
    by (rule same_month_of_ord)
  then show ?case by simp
next
  case (Suc fuel)
  have wfs: "wf_date (dt_date s)" and wfd: "wf_date (dt_date d)"
    using Suc.prems(1) assms by (simp_all add: valid_datetime_def valid_date_wf)
  show ?case
  proof (cases "dt_month s \<noteq> dt_month d \<or> dt_year s \<noteq> dt_year d")
    case False
    then show ?thesis by simp
  next
    case True
    then have "ymd2ord (dt_date s) \<noteq> ymd2ord (dt_date d)"
      using same_month_of_ord[OF wfs wfd] by blast
    then have lt: "ymd2ord (dt_date s) < ymd2ord (dt_date d)" using Suc.prems(2) by simp
    define n where "n = next_day (dt_date s)"
    have n: "ymd2ord n = ymd2ord (dt_date s) + 1" "wf_date n" "fst (dt_date s) \<le> fst n"
      using next_day_ord[OF wfs] by (simp_all add: n_def)
    have "fst n \<le> fst (dt_date d)"
      using n(1,2) wfd lt by (intro year_le_of_ord) simp_all
    then have range: "1 \<le> fst n" "fst n \<le> 9999"
      using n(3) Suc.prems(1) assms by (simp_all add: valid_datetime_def valid_date_wf)
    define s' where "s' = s\<lparr>dt_date := n\<rparr>"
    have step: "add_day s 1 = Inr s'"
      using range by (simp add: add_day_def n_def[symmetric] s'_def)
    have "valid_datetime s'"
      using Suc.prems(1) n(2) range by (simp add: valid_datetime_def valid_date_wf s'_def)
    moreover have "ymd2ord (dt_date s') \<le> ymd2ord (dt_date d)"
      using lt n(1) by (simp add: s'_def)
    moreover have "ymd2ord (dt_date d) - ymd2ord (dt_date s') \<le> int fuel"
      using Suc.prems(3) n(1) by (simp add: s'_def)
    ultimately have "\<exists>r. day_walk fuel 1 d s' = Some (Inr r) \<and> dt_month r = dt_month d \<and> dt_year r = dt_year d"
      by (rule Suc.IH)
    then show ?thesis using True step by simp
  qed
qed

lemma walk_backward:
  assumes "valid_date (dt_date d)"
  shows "valid_datetime s \<Longrightarrow> ymd2ord (dt_date d) \<le> ymd2ord (dt_date s)
    \<Longrightarrow> ymd2ord (dt_date s) - ymd2ord (dt_date d) \<le> int fuel
    \<Longrightarrow> \<exists>r. day_walk fuel (- 1) d s = Some (Inr r) \<and> dt_month r = dt_month d \<and> dt_year r = dt_year d"
proof (induction fuel arbitrary: s)
  case 0
  have "wf_date (dt_date s)" "wf_date (dt_date d)"
    using 0(1) assms by (simp_all add: valid_datetime_def valid_date_wf)
  moreover have "ymd2ord (dt_date s) = ymd2ord (dt_date d)" using 0 by simp
  ultimately have "dt_month s = dt_month d \<and> dt_year s = dt_year d"
    by (rule same_month_of_ord)
  then show ?case by simp
next
  case (Suc fuel)
  have wfs: "wf_date (dt_date s)" and wfd: "wf_date (dt_date d)"
    using Suc.prems(1) assms by (simp_all add: valid_datetime_def valid_date_wf)
  show ?case
  proof (cases "dt_month s \<noteq> dt_month d \<or> dt_year s \<noteq> dt_year d")
    case False
    then show ?thesis by simp
  next
    case True
    then have "ymd2ord (dt_date s) \<noteq> ymd2ord (dt_date d)"
      using same_month_of_ord[OF wfs wfd] by blast
    then have lt: "ymd2ord (dt_date d) < ymd2ord (dt_date s)" using Suc.prems(2) by simp
    define n where "n = prev_day (dt_date s)"
    have n: "ymd2ord n = ymd2ord (dt_date s) - 1" "wf_date n" "fst n \<le> fst (dt_date s)"
      using prev_day_ord[OF wfs] by (simp_all add: n_def)
    have "fst (dt_date d) \<le> fst n"
      using n(1,2) wfd lt by (intro year_le_of_ord) simp_all
    then have range: "1 \<le> fst n" "fst n \<le> 9999"
      using n(3) Suc.prems(1) assms by (simp_all add: valid_datetime_def valid_date_wf)
    define s' where "s' = s\<lparr>dt_date := n\<rparr>"
    have step: "add_day s (- 1) = Inr s'"
      using range by (simp add: add_day_def n_def[symmetric] s'_def)
    have "valid_datetime s'"
      using Suc.prems(1) n(2) range by (simp add: valid_datetime_def valid_date_wf s'_def)
    moreover have "ymd2ord (dt_date d) \<le> ymd2ord (dt_date s')"
      using lt n(1) by (simp add: s'_def)
    moreover have "ymd2ord (dt_date s') - ymd2ord (dt_date d) \<le> int fuel"
      using Suc.prems(3) n(1) by (simp add: s'_def)
    ultimately have "\<exists>r. day_walk fuel (- 1) d s' = Some (Inr r) \<and> dt_month r = dt_month d \<and> dt_year r = dt_year d"
      by (rule Suc.IH)
    then show ?thesis using True step by simp
  qed
qed

text \<open>
  C7: for every valid publication date and every valid current time, the synthesis of the
  event time returns a timestamp in the month and year of the publication date, and the
  day-by-day walk needs at most 60 steps: with fuel 60 the loop has ended. When the two
  times are more than 60 days apart the candidate itself is returned; otherwise the walk
  runs, and it neither exhausts the fuel nor leaves the range of years.
\<close>

theorem synthesize_time_total:
  assumes "valid_date rfc_published_date" and "valid_datetime now"
  shows "\<exists>r. synthesize_time 60 rfc_published_date now = Some (Inr r)
           \<and> dt_month r = fst (snd rfc_published_date)
           \<and> dt_year r = fst rfc_published_date"
proof -
  define d where "d = datetime_from_date rfc_published_date"
  have dd: "dt_date d = rfc_published_date" "dt_micro d = 0"
    by (simp_all add: d_def datetime_from_date_def)
  have ym: "dt_month d = fst (snd rfc_published_date)" "dt_year d = fst rfc_published_date"
    by (simp_all add: dt_month_def dt_year_def dd)
  have vd: "valid_date (dt_date d)" using assms(1) by (simp add: dd)
  define a where "a = ymd2ord (dt_date d)"
  define b where "b = ymd2ord (dt_date now)"
  have mu: "0 \<le> dt_micro now" "dt_micro now < 86400000000"
    using assms(2) by (simp_all add: valid_datetime_def)
  have diff: "datetime_diff d now = a * 86400000000 - (b * 86400000000 + dt_micro now)"
    by (simp add: datetime_diff_def to_micro_def a_def b_def dd)
  show ?thesis
  proof (cases "\<bar>datetime_diff d now\<bar> > 60 * 86400000000")
    case True
    then show ?thesis using ym by (simp add: synthesize_time_def d_def[symmetric])
  next
    case near: False
    show ?thesis
    proof (cases "datetime_diff d now < 0")
      case True
      have "a \<le> b" using True mu unfolding diff by linarith
      moreover have "b - a \<le> 60" using near True mu unfolding diff by linarith
      ultimately have "\<exists>r. day_walk 60 (- 1) d now = Some (Inr r) \<and> dt_month r = dt_month d \<and> dt_year r = dt_year d"
        using walk_backward[OF vd assms(2), of 60] by (simp add: a_def b_def)
      then show ?thesis using near True ym
        by (simp add: synthesize_time_def d_def[symmetric])
    next
      case False
      have "b \<le> a" using False mu unfolding diff by linarith
      moreover have "a - b \<le> 60" using near False mu unfolding diff by linarith
      ultimately have "\<exists>r. day_walk 60 1 d now = Some (Inr r) \<and> dt_month r = dt_month d \<and> dt_year r = dt_year d"
        using walk_forward[OF vd assms(2), of 60] by (simp add: a_def b_def)
      then show ?thesis using near False ym
        by (simp add: synthesize_time_def d_def[symmetric])
    qed
  qed
qed

text \<open>With the date 2024-03-01 and the current time 2024-04-02 the walk goes back two days.\<close>

theorem synthesize_time_total_witness:
  "valid_date (2024, 3, 1) \<and> valid_datetime \<lparr>dt_date = (2024, 4, 2), dt_micro = 5\<rparr>
   \<and> synthesize_time 60 (2024, 3, 1) \<lparr>dt_date = (2024, 4, 2), dt_micro = 5\<rparr>
       = Some (Inr \<lparr>dt_date = (2024, 3, 31), dt_micro = 5\<rparr>)"
proof -
  have h1: "valid_date (2024, 3, 1)"
    by (simp add: valid_date_def days_in_month_def)
  have h2: "valid_datetime \<lparr>dt_date = (2024, 4, 2), dt_micro = 5\<rparr>"
    by (simp add: valid_datetime_def valid_date_def days_in_month_def)
  have v: "synthesize_time 60 (2024, 3, 1) \<lparr>dt_date = (2024, 4, 2), dt_micro = 5\<rparr>
       = Some (Inr \<lparr>dt_date = (2024, 3, 31), dt_micro = 5\<rparr>)"
    by code_simp
  show ?thesis using synthesize_time_total[OF h1 h2] h1 h2 v by simp
qed

section \<open>Properties of the index reconciler\<close>

lemmas db_prims = set_state_def unset_state_def save_event_def save_optional_event_def
  save_with_history_def tags_add_def tags_remove_def tags_set_def get_state_def

lemma index_entry_bodyE:
  assumes "index_entry_body uah now errata e s = Inr r"
  obtains w0 w1 w2 w3 w4 w5 where
    "resolve_document s e = Inr w0"
    "check_pages e (check_abstract e (check_title e w0)) = Inr w1"
    "check_std_level e w1 = Inr w2"
    "check_stream e (check_state w2) = Inr w3"
    "check_group e w3 = Inr w4"
    "published_event now e w4 = Inr w5"
    "r = finish_entry (errata_tags errata e (also_aliases e
           (relations ''updates'' (i_updates e) (relations ''obs'' (i_obsoletes e)
             (stream_states uah w5)))))"
  using assms unfolding index_entry_body_def and_then_def
  by (auto split: sum.splits)

text \<open>what each step leaves alone\<close>

lemma resolve_document_frame:
  assumes "resolve_document s e = Inr w"
  shows "relateddocument (w_db w) = relateddocument s" "doc_tags (w_db w) = doc_tags s"
    "doc_states (w_db w) = doc_states s" "docevents (w_db w) = docevents s"
    "groups (w_db w) = groups s" "map_of (documents (w_db w)) (w_name w) = Some (w_doc w)"
  using assms unfolding resolve_document_def
  by (auto simp: Let_def map_add_def split: list.splits option.splits if_splits prod.splits)

lemma check_title_frame:
  "w_db (check_title e w) = w_db w" "w_name (check_title e w) = w_name w"
  "doc_abstract (w_doc (check_title e w)) = doc_abstract (w_doc w)"
  "doc_pages (w_doc (check_title e w)) = doc_pages (w_doc w)"
  by (simp_all add: check_title_def)

lemma check_abstract_frame:
  "w_db (check_abstract e w) = w_db w" "w_name (check_abstract e w) = w_name w"
  "doc_pages (w_doc (check_abstract e w)) = doc_pages (w_doc w)"
  "i_abstract e = [] \<Longrightarrow> check_abstract e w = w"
  by (simp_all add: check_abstract_def)

lemma check_pages_frame:
  assumes "check_pages e w = Inr w'"
  shows "w_db w' = w_db w" "w_name w' = w_name w"
    "doc_abstract (w_doc w') = doc_abstract (w_doc w)"
    "i_pages e = [] \<Longrightarrow> w' = w"
  using assms by (auto simp: check_pages_def split: if_splits option.splits)

lemma check_std_level_frame:
  assumes "check_std_level e w = Inr w'"
  shows "w_db w' = w_db w" "w_name w' = w_name w"
    "doc_abstract (w_doc w') = doc_abstract (w_doc w)" "doc_pages (w_doc w') = doc_pages (w_doc w)"
  using assms by (auto simp: check_std_level_def split: if_splits option.splits)

lemma check_state_frame:
  "w_name (check_state w) = w_name w" "w_doc (check_state w) = w_doc w"
  "relateddocument (w_db (check_state w)) = relateddocument (w_db w)"
  "doc_tags (w_db (check_state w)) = doc_tags (w_db w)"
  "documents (w_db (check_state w)) = documents (w_db w)"
  "docalias (w_db (check_state w)) = docalias (w_db w)"
  by (simp_all add: check_state_def db_prims)

lemma check_stream_frame:
  assumes "check_stream e w = Inr w'"
  shows "w_db w' = w_db w" "w_name w' = w_name w"
    "doc_abstract (w_doc w') = doc_abstract (w_doc w)" "doc_pages (w_doc w') = doc_pages (w_doc w)"
  using assms by (auto simp: check_stream_def split: if_splits option.splits)

lemma check_group_frame:
  assumes "check_group e w = Inr w'"
  shows "w_db w' = w_db w" "w_name w' = w_name w"
    "doc_abstract (w_doc w') = doc_abstract (w_doc w)" "doc_pages (w_doc w') = doc_pages (w_doc w)"
  using assms by (auto simp: check_group_def split: if_splits sum.splits prod.splits)

lemma published_event_frame:
  assumes "published_event now e w = Inr w'"
  shows "w_name w' = w_name w" "w_doc w' = w_doc w"
    "relateddocument (w_db w') = relateddocument (w_db w)"
    "doc_tags (w_db w') = doc_tags (w_db w)"
    "documents (w_db w') = documents (w_db w)"
    "docalias (w_db w') = docalias (w_db w)"
  using assms by (auto simp: published_event_def db_prims Let_def split: if_splits option.splits sum.splits)

lemma stream_state_step_frame:
  "w_name (stream_state_step uah t w) = w_name w" "w_doc (stream_state_step uah t w) = w_doc w"
  "relateddocument (w_db (stream_state_step uah t w)) = relateddocument (w_db w)"
  "doc_tags (w_db (stream_state_step uah t w)) = doc_tags (w_db w)"
  "documents (w_db (stream_state_step uah t w)) = documents (w_db w)"
  "docalias (w_db (stream_state_step uah t w)) = docalias (w_db w)"
  by (simp_all add: stream_state_step_def db_prims Let_def split: option.splits)

lemma stream_states_frame:
  "w_name (stream_states uah w) = w_name w" "w_doc (stream_states uah w) = w_doc w"
  "relateddocument (w_db (stream_states uah w)) = relateddocument (w_db w)"
  "doc_tags (w_db (stream_states uah w)) = doc_tags (w_db w)"
  "documents (w_db (stream_states uah w)) = documents (w_db w)"
  "docalias (w_db (stream_states uah w)) = docalias (w_db w)"
  by (simp_all add: stream_states_def stream_state_step_frame)

lemma relation_step_frame:
  "w_name (relation_step r w x) = w_name w" "w_doc (relation_step r w x) = w_doc w"
  "doc_tags (w_db (relation_step r w x)) = doc_tags (w_db w)"
  "documents (w_db (relation_step r w x)) = documents (w_db w)"
  "docalias (w_db (relation_step r w x)) = docalias (w_db w)"
  by (simp_all add: relation_step_def)

lemma relation_fold_frame:
  "w_name (foldl (relation_step r) w xs) = w_name w"
  "w_doc (foldl (relation_step r) w xs) = w_doc w"
  "doc_tags (w_db (foldl (relation_step r) w xs)) = doc_tags (w_db w)"
  "documents (w_db (foldl (relation_step r) w xs)) = documents (w_db w)"
  "docalias (w_db (foldl (relation_step r) w xs)) = docalias (w_db w)"
  by (induction xs arbitrary: w; simp add: relation_step_frame)+

lemma relations_frame:
  "w_name (relations r l w) = w_name w" "w_doc (relations r l w) = w_doc w"
  "doc_tags (w_db (relations r l w)) = doc_tags (w_db w)"
  "documents (w_db (relations r l w)) = documents (w_db w)"
  "docalias (w_db (relations r l w)) = docalias (w_db w)"
  by (simp_all add: relations_def relation_fold_frame)

lemma also_step_frame:
  "w_name (also_step w a) = w_name w" "w_doc (also_step w a) = w_doc w"
  "doc_tags (w_db (also_step w a)) = doc_tags (w_db w)"
  "documents (w_db (also_step w a)) = documents (w_db w)"
  "relateddocument (w_db (also_step w a)) = relateddocument (w_db w)"
  by (simp_all add: also_step_def Let_def)

lemma also_fold_frame:
  "w_name (foldl also_step w xs) = w_name w"
  "w_doc (foldl also_step w xs) = w_doc w"
  "doc_tags (w_db (foldl also_step w xs)) = doc_tags (w_db w)"
  "documents (w_db (foldl also_step w xs)) = documents (w_db w)"
  "relateddocument (w_db (foldl also_step w xs)) = relateddocument (w_db w)"
  by (induction xs arbitrary: w; simp add: also_step_frame)+

lemma also_aliases_frame:
  "w_name (also_aliases e w) = w_name w" "w_doc (also_aliases e w) = w_doc w"
  "doc_tags (w_db (also_aliases e w)) = doc_tags (w_db w)"
  "documents (w_db (also_aliases e w)) = documents (w_db w)"
  "relateddocument (w_db (also_aliases e w)) = relateddocument (w_db w)"
  by (simp_all add: also_aliases_def also_fold_frame)

lemma errata_tags_frame:
  "w_name (errata_tags errata e w) = w_name w" "w_doc (errata_tags errata e w) = w_doc w"
  "documents (w_db (errata_tags errata e w)) = documents (w_db w)"
  "relateddocument (w_db (errata_tags errata e w)) = relateddocument (w_db w)"
  "docalias (w_db (errata_tags errata e w)) = docalias (w_db w)"
  by (simp_all add: errata_tags_def db_prims Let_def)

lemma finish_entry_frame:
  "relateddocument (fst (finish_entry w)) = relateddocument (w_db w)"
  "doc_tags (fst (finish_entry w)) = doc_tags (w_db w)"
  "docalias (fst (finish_entry w)) = docalias (w_db w)"
  by (simp_all add: finish_entry_def db_prims Let_def)

lemma adds_fresh_iff:
  "adds_fresh old new = (\<exists>added. new = old @ added \<and> distinct added \<and> set added \<inter> set old = {})"
proof
  assume "adds_fresh old new"
  then have "new = old @ drop (length old) new \<and> distinct (drop (length old) new)
      \<and> set (drop (length old) new) \<inter> set old = {}"
    unfolding adds_fresh_def by (metis append_take_drop_id)
  then show "\<exists>added. new = old @ added \<and> distinct added \<and> set added \<inter> set old = {}" by blast
next
  assume "\<exists>added. new = old @ added \<and> distinct added \<and> set added \<inter> set old = {}"
  then show "adds_fresh old new" by (auto simp: adds_fresh_def)
qed

lemma adds_fresh_refl: "adds_fresh xs xs"
  by (simp add: adds_fresh_def)

lemma adds_fresh_trans:
  assumes "adds_fresh xs ys" "adds_fresh ys zs"
  shows "adds_fresh xs zs"
proof -
  obtain a where a: "ys = xs @ a" "distinct a" "set a \<inter> set xs = {}"
    using assms(1) by (auto simp: adds_fresh_iff)
  obtain b where b: "zs = ys @ b" "distinct b" "set b \<inter> set ys = {}"
    using assms(2) by (auto simp: adds_fresh_iff)
  have "zs = xs @ (a @ b)" using a b by simp
  moreover have "distinct (a @ b)" using a b by auto
  moreover have "set (a @ b) \<inter> set xs = {}" using a b by auto
  ultimately show ?thesis unfolding adds_fresh_iff by blast
qed

lemma adds_fresh_distinct: "adds_fresh xs ys \<Longrightarrow> distinct xs \<Longrightarrow> distinct ys"
  by (auto simp: adds_fresh_iff)

lemma relation_step_adds:
  "adds_fresh (relateddocument (w_db w)) (relateddocument (w_db (relation_step r w x)))"
  by (simp add: relation_step_def adds_fresh_def)

lemma relation_fold_adds:
  "adds_fresh (relateddocument (w_db w)) (relateddocument (w_db (foldl (relation_step r) w xs)))"
proof (induction xs arbitrary: w)
  case Nil
  show ?case by (simp add: adds_fresh_refl)
next
  case (Cons x xs)
  show ?case
    using adds_fresh_trans[OF relation_step_adds[of w r x] Cons.IH[of "relation_step r w x"]]
    by simp
qed

lemma relations_adds:
  "adds_fresh (relateddocument (w_db w)) (relateddocument (w_db (relations r l w)))"
  by (simp add: relations_def relation_fold_adds)

lemma index_entry_body_adds:
  assumes "index_entry_body uah now errata e s = Inr (s', y)"
  shows "adds_fresh (relateddocument s) (relateddocument s')"
proof -
  from assms obtain w0 w1 w2 w3 w4 w5 where
    w0: "resolve_document s e = Inr w0"
    and w1: "check_pages e (check_abstract e (check_title e w0)) = Inr w1"
    and w2: "check_std_level e w1 = Inr w2"
    and w3: "check_stream e (check_state w2) = Inr w3"
    and w4: "check_group e w3 = Inr w4"
    and w5: "published_event now e w4 = Inr w5"
    and r: "(s', y) = finish_entry (errata_tags errata e (also_aliases e
           (relations ''updates'' (i_updates e) (relations ''obs'' (i_obsoletes e)
             (stream_states uah w5)))))"
    by (rule index_entry_bodyE)
  have "relateddocument (w_db w1) = relateddocument s"
    by (simp add: check_pages_frame(1)[OF w1] check_abstract_frame check_title_frame
          resolve_document_frame(1)[OF w0])
  then have "relateddocument (w_db w3) = relateddocument s"
    by (simp add: check_stream_frame(1)[OF w3] check_state_frame check_std_level_frame(1)[OF w2])
  then have a: "relateddocument (w_db (stream_states uah w5)) = relateddocument s"
    by (simp add: stream_states_frame published_event_frame(3)[OF w5] check_group_frame(1)[OF w4])
  define u where "u = relations ''obs'' (i_obsoletes e) (stream_states uah w5)"
  have "adds_fresh (relateddocument s) (relateddocument (w_db u))"
    unfolding u_def using relations_adds[of "stream_states uah w5"] a by simp
  then have "adds_fresh (relateddocument s)
      (relateddocument (w_db (relations ''updates'' (i_updates e) u)))"
    using relations_adds[of u] adds_fresh_trans by blast
  moreover have "relateddocument s' = relateddocument (w_db (relations ''updates'' (i_updates e) u))"
    using arg_cong[OF r, of "\<lambda>p. relateddocument (fst p)"]
    by (simp add: finish_entry_frame errata_tags_frame also_aliases_frame u_def)
  ultimately show ?thesis by simp
qed

lemma index_loop_adds:
  "index_loop uah now errata skip es s = Inr (s', ys)
    \<Longrightarrow> adds_fresh (relateddocument s) (relateddocument s')"
proof (induction es arbitrary: s s' ys)
  case Nil
  then show ?case by (simp add: adds_fresh_refl)
next
  case (Cons e es)
  show ?case
  proof (cases "skipped skip e")
    case True
    then show ?thesis using Cons by simp
  next
    case False
    then obtain s1 y where b: "index_entry_body uah now errata e s = Inr (s1, y)"
      using Cons.prems by (auto split: sum.splits)
    then obtain ys1 where l: "index_loop uah now errata skip es s1 = Inr (s', ys1)"
      using Cons.prems False by (auto split: sum.splits)
    show ?thesis
      using adds_fresh_trans[OF index_entry_body_adds[OF b] Cons.IH[OF l]] .
  qed
qed

text \<open>
  C6: a run of \<open>update_docs_from_rfc_index\<close> that returns leaves the related documents of
  the start in place, in their order, and adds only triples (source, target, relationship)
  that were absent, each once; so a table without a duplicate stays without one. The step
  of the loop of lines 503 to 511 for one target, done twice, is the step done once, and
  when the triple was absent it leaves exactly one edge with that triple.
\<close>

theorem relations_created_once:
  assumes "update_docs_from_rfc_index uah now index_data errata_data skip s = Inr (s', ys)"
  shows "adds_fresh (relateddocument s) (relateddocument s')
       \<and> (distinct (relateddocument s) \<longrightarrow> distinct (relateddocument s'))
       \<and> relation_step r (relation_step r w x) x = relation_step r w x
       \<and> ((w_name w, x, r) \<notin> set (relateddocument (w_db w)) \<longrightarrow>
            count_list (relateddocument (w_db (relation_step r (relation_step r w x) x))) (w_name w, x, r) = 1)"
proof -
  have a: "adds_fresh (relateddocument s) (relateddocument s')"
    using assms unfolding update_docs_from_rfc_index_def by (rule index_loop_adds)
  have b: "relation_step r (relation_step r w x) x = relation_step r w x"
    by (simp add: relation_step_def)
  have c: "(w_name w, x, r) \<notin> set (relateddocument (w_db w)) \<longrightarrow>
            count_list (relateddocument (w_db (relation_step r (relation_step r w x) x))) (w_name w, x, r) = 1"
    by (simp add: relation_step_def count_list_0_iff)
  show ?thesis using a adds_fresh_distinct[OF a] b c by blast
qed

lemma check_frames_doc:
  "w_events (check_title e w) = w_events w"
  "w_events (check_abstract e w) = w_events w"
  by (simp_all add: check_title_def check_abstract_def)

lemma body_summary:
  assumes body: "index_entry_body uah now errata e s = Inr (s', y)"
    and res: "resolve_document s e = Inr w0"
  obtains wa where
    "(s', y) = finish_entry (errata_tags errata e wa)"
    "w_name wa = w_name w0"
    "doc_tags (w_db wa) = doc_tags s"
    "documents (w_db wa) = documents (w_db w0)"
    "i_abstract e = [] \<longrightarrow> doc_abstract (w_doc wa) = doc_abstract (w_doc w0)"
    "i_pages e = [] \<longrightarrow> doc_pages (w_doc wa) = doc_pages (w_doc w0)"
proof -
  from body obtain v0 w1 w2 w3 w4 w5 where
    v0: "resolve_document s e = Inr v0"
    and w1: "check_pages e (check_abstract e (check_title e v0)) = Inr w1"
    and w2: "check_std_level e w1 = Inr w2"
    and w3: "check_stream e (check_state w2) = Inr w3"
    and w4: "check_group e w3 = Inr w4"
    and w5: "published_event now e w4 = Inr w5"
    and r: "(s', y) = finish_entry (errata_tags errata e (also_aliases e
           (relations ''updates'' (i_updates e) (relations ''obs'' (i_obsoletes e)
             (stream_states uah w5)))))"
    by (rule index_entry_bodyE)
  have [simp]: "v0 = w0" using v0 res by simp
  define wa where "wa = also_aliases e (relations ''updates'' (i_updates e)
      (relations ''obs'' (i_obsoletes e) (stream_states uah w5)))"
  have n1: "w_name w1 = w_name w0" and d1: "w_db w1 = w_db w0"
    using check_pages_frame(1,2)[OF w1] by (simp_all add: check_abstract_frame check_title_frame)
  have n3: "w_name w3 = w_name w0"
    using check_stream_frame(2)[OF w3] check_std_level_frame(2)[OF w2] n1
    by (simp add: check_state_frame)
  have n5: "w_name w5 = w_name w0"
    using published_event_frame(1)[OF w5] check_group_frame(2)[OF w4] n3 by simp
  have name: "w_name wa = w_name w0"
    by (simp add: wa_def also_aliases_frame relations_frame stream_states_frame n5)
  have t3: "doc_tags (w_db w3) = doc_tags s"
    using check_stream_frame(1)[OF w3] check_std_level_frame(1)[OF w2] d1
      resolve_document_frame(2)[OF res]
    by (simp add: check_state_frame)
  have t5: "doc_tags (w_db w5) = doc_tags s"
    using published_event_frame(4)[OF w5] check_group_frame(1)[OF w4] t3 by simp
  have tags: "doc_tags (w_db wa) = doc_tags s"
    by (simp add: wa_def also_aliases_frame relations_frame stream_states_frame t5)
  have c3: "documents (w_db w3) = documents (w_db w0)"
    using check_stream_frame(1)[OF w3] check_std_level_frame(1)[OF w2] d1
    by (simp add: check_state_frame)
  have c5: "documents (w_db w5) = documents (w_db w0)"
    using published_event_frame(5)[OF w5] check_group_frame(1)[OF w4] c3 by simp
  have docs: "documents (w_db wa) = documents (w_db w0)"
    by (simp add: wa_def also_aliases_frame relations_frame stream_states_frame c5)
  have fld: "w_doc wa = w_doc w4"
    using published_event_frame(2)[OF w5]
    by (simp add: wa_def also_aliases_frame relations_frame stream_states_frame)
  have abs: "doc_abstract (w_doc wa) = doc_abstract (w_doc w0)" if "i_abstract e = []"
    using check_group_frame(3)[OF w4] check_stream_frame(3)[OF w3] check_std_level_frame(3)[OF w2]
      check_pages_frame(3)[OF w1] check_abstract_frame(4)[OF that]
    by (simp add: fld check_state_frame check_title_frame)
  have pgs: "doc_pages (w_doc wa) = doc_pages (w_doc w0)" if "i_pages e = []"
    using check_group_frame(4)[OF w4] check_stream_frame(4)[OF w3] check_std_level_frame(4)[OF w2]
      check_pages_frame(4)[OF w1 that]
    by (simp add: fld check_state_frame check_title_frame check_abstract_frame)
  show thesis
    using that[of wa] r name tags docs abs pgs by (simp add: wa_def)
qed

lemma group_errata_snoc:
  "group_errata (xs @ [x]) =
     (group_errata xs)(doc_id x \<mapsto> (case group_errata xs (doc_id x) of None \<Rightarrow> [] | Some l \<Rightarrow> l) @ [x])"
  by (simp add: group_errata_def)

lemma group_errata_filter:
  "(case group_errata errata_data k of None \<Rightarrow> [] | Some l \<Rightarrow> l)
     = filter (\<lambda>item. doc_id item = k) errata_data"
proof (induction errata_data rule: rev_induct)
  case Nil
  show ?case by (simp add: group_errata_def)
next
  case (snoc x xs)
  show ?case
  proof (cases "doc_id x = k")
    case True
    then show ?thesis using snoc by (simp add: group_errata_snoc)
  next
    case False
    then show ?thesis using snoc by (simp add: group_errata_snoc)
  qed
qed

lemma errata_tags_result:
  assumes "doc_errata = (case errata (''RFC'' @ fmt_04d (i_rfc_number e)) of None \<Rightarrow> [] | Some l \<Rightarrow> l)"
    and "all_rejected = (doc_errata \<noteq> [] \<and> (\<forall>er \<in> set doc_errata. errata_status_code er = ''Rejected''))"
    and "tags = set (doc_tags (w_db (errata_tags errata e w)) (w_name w))"
  shows "i_has_errata e \<and> \<not> all_rejected \<Longrightarrow>
           ''errata'' \<in> tags
         \<and> ((\<exists>er \<in> set doc_errata. errata_status_code er = ''Verified'') \<longrightarrow> ''verified-errata'' \<in> tags)"
    and "\<not> (i_has_errata e \<and> \<not> all_rejected) \<Longrightarrow> ''errata'' \<notin> tags \<and> ''verified-errata'' \<notin> tags"
    and "\<not> (i_has_errata e \<and> \<not> all_rejected) \<Longrightarrow> all_rejected
           \<Longrightarrow> ''errata'' \<in> set (doc_tags (w_db w) (w_name w))
           \<Longrightarrow> Removed_errata_tag_all_rejected \<in> set (w_changes (errata_tags errata e w))"
  unfolding assms errata_tags_def
  by (auto simp: Let_def db_prims)

lemma step_notes:
  assumes other: "\<forall>c. (\<forall>a. c \<noteq> Changed_abstract a) \<and> (\<forall>k. c \<noteq> Changed_pages k) \<longrightarrow> P c"
  shows "resolve_document s e = Inr w \<Longrightarrow> \<forall>c \<in> set (w_changes w). P c"
    and "\<forall>c \<in> set (w_changes w). P c \<Longrightarrow> \<forall>c \<in> set (w_changes (check_title e w)). P c"
    and "check_std_level e w = Inr w' \<Longrightarrow> \<forall>c \<in> set (w_changes w). P c \<Longrightarrow> \<forall>c \<in> set (w_changes w'). P c"
    and "\<forall>c \<in> set (w_changes w). P c \<Longrightarrow> \<forall>c \<in> set (w_changes (check_state w)). P c"
    and "check_stream e w = Inr w' \<Longrightarrow> \<forall>c \<in> set (w_changes w). P c \<Longrightarrow> \<forall>c \<in> set (w_changes w'). P c"
    and "check_group e w = Inr w' \<Longrightarrow> \<forall>c \<in> set (w_changes w). P c \<Longrightarrow> \<forall>c \<in> set (w_changes w'). P c"
    and "published_event now e w = Inr w' \<Longrightarrow> \<forall>c \<in> set (w_changes w). P c \<Longrightarrow> \<forall>c \<in> set (w_changes w'). P c"
    and "\<forall>c \<in> set (w_changes w). P c \<Longrightarrow> \<forall>c \<in> set (w_changes (stream_state_step uah t w)). P c"
    and "\<forall>c \<in> set (w_changes w). P c \<Longrightarrow> \<forall>c \<in> set (w_changes (relation_step r w x)). P c"
    and "\<forall>c \<in> set (w_changes w). P c \<Longrightarrow> \<forall>c \<in> set (w_changes (also_step w a)). P c"
    and "\<forall>c \<in> set (w_changes w). P c \<Longrightarrow> \<forall>c \<in> set (w_changes (errata_tags errata e w)). P c"
proof -
  show "resolve_document s e = Inr w \<Longrightarrow> \<forall>c \<in> set (w_changes w). P c"
    using other unfolding resolve_document_def
    by (auto simp: Let_def split: list.splits option.splits if_splits prod.splits)
  show "\<forall>c \<in> set (w_changes w). P c \<Longrightarrow> \<forall>c \<in> set (w_changes (check_title e w)). P c"
    using other by (auto simp: check_title_def)
  show "check_std_level e w = Inr w' \<Longrightarrow> \<forall>c \<in> set (w_changes w). P c \<Longrightarrow> \<forall>c \<in> set (w_changes w'). P c"
    using other by (auto simp: check_std_level_def split: option.splits if_splits)
  show "\<forall>c \<in> set (w_changes w). P c \<Longrightarrow> \<forall>c \<in> set (w_changes (check_state w)). P c"
    using other by (auto simp: check_state_def)
  show "check_stream e w = Inr w' \<Longrightarrow> \<forall>c \<in> set (w_changes w). P c \<Longrightarrow> \<forall>c \<in> set (w_changes w'). P c"
    using other by (auto simp: check_stream_def split: option.splits if_splits)
  show "check_group e w = Inr w' \<Longrightarrow> \<forall>c \<in> set (w_changes w). P c \<Longrightarrow> \<forall>c \<in> set (w_changes w'). P c"
    using other by (auto simp: check_group_def split: if_splits sum.splits prod.splits)
  show "published_event now e w = Inr w' \<Longrightarrow> \<forall>c \<in> set (w_changes w). P c \<Longrightarrow> \<forall>c \<in> set (w_changes w'). P c"
    using other by (auto simp: published_event_def Let_def split: if_splits option.splits sum.splits)
  show "\<forall>c \<in> set (w_changes w). P c \<Longrightarrow> \<forall>c \<in> set (w_changes (stream_state_step uah t w)). P c"
    using other by (auto simp: stream_state_step_def Let_def split: option.splits)
  show "\<forall>c \<in> set (w_changes w). P c \<Longrightarrow> \<forall>c \<in> set (w_changes (relation_step r w x)). P c"
    using other by (auto simp: relation_step_def)
  show "\<forall>c \<in> set (w_changes w). P c \<Longrightarrow> \<forall>c \<in> set (w_changes (also_step w a)). P c"
    using other by (auto simp: also_step_def Let_def)
  show "\<forall>c \<in> set (w_changes w). P c \<Longrightarrow> \<forall>c \<in> set (w_changes (errata_tags errata e w)). P c"
    using other by (auto simp: errata_tags_def Let_def)
qed

lemma fold_notes:
  assumes other: "\<forall>c. (\<forall>a. c \<noteq> Changed_abstract a) \<and> (\<forall>k. c \<noteq> Changed_pages k) \<longrightarrow> P c"
  shows "\<forall>c \<in> set (w_changes w). P c \<Longrightarrow> \<forall>c \<in> set (w_changes (stream_states uah w)). P c"
    and "\<forall>c \<in> set (w_changes w). P c \<Longrightarrow> \<forall>c \<in> set (w_changes (relations r l w)). P c"
    and "\<forall>c \<in> set (w_changes w). P c \<Longrightarrow> \<forall>c \<in> set (w_changes (also_aliases e w)). P c"
proof -
  note h = step_notes(8)[where P = P, OF other]
  show "\<forall>c \<in> set (w_changes w). P c \<Longrightarrow> \<forall>c \<in> set (w_changes (stream_states uah w)). P c"
  proof -
    assume a: "\<forall>c \<in> set (w_changes w). P c"
    show ?thesis
      using h[OF h[OF h[OF h[OF a]]], of uah "''draft-stream-ise''" uah "''draft-stream-irtf''"
          uah "''draft-stream-iab''" uah "''draft-iesg''"]
      by (simp add: stream_states_def)
  qed
  have rel: "\<forall>c \<in> set (w_changes w). P c \<Longrightarrow> \<forall>c \<in> set (w_changes (foldl (relation_step r) w xs)). P c"
    for xs w
  proof (induction xs arbitrary: w)
    case Nil
    then show ?case by simp
  next
    case (Cons x xs)
    show ?case using Cons.IH[OF step_notes(9)[where P = P, OF other Cons.prems]] by simp
  qed
  show "\<forall>c \<in> set (w_changes w). P c \<Longrightarrow> \<forall>c \<in> set (w_changes (relations r l w)). P c"
    unfolding relations_def by (rule rel)
  have als: "\<forall>c \<in> set (w_changes w). P c \<Longrightarrow> \<forall>c \<in> set (w_changes (foldl also_step w xs)). P c"
    for xs w
  proof (induction xs arbitrary: w)
    case Nil
    then show ?case by simp
  next
    case (Cons x xs)
    show ?case using Cons.IH[OF step_notes(10)[where P = P, OF other Cons.prems]] by simp
  qed
  show "\<forall>c \<in> set (w_changes w). P c \<Longrightarrow> \<forall>c \<in> set (w_changes (also_aliases e w)). P c"
    unfolding also_aliases_def by (rule als)
qed

lemma body_notes:
  assumes body: "index_entry_body uah now errata e s = Inr (s', y)"
    and other: "\<forall>c. (\<forall>a. c \<noteq> Changed_abstract a) \<and> (\<forall>k. c \<noteq> Changed_pages k) \<longrightarrow> P c"
    and abs: "i_abstract e \<noteq> [] \<Longrightarrow> P (Changed_abstract (i_abstract e))"
    and pgs: "\<And>k. i_pages e \<noteq> [] \<Longrightarrow> P (Changed_pages k)"
  shows "\<forall>changes n p. y = Some (changes, n, p) \<longrightarrow> (\<forall>c \<in> set changes. P c)"
proof -
  from body obtain w0 w1 w2 w3 w4 w5 where
    w0: "resolve_document s e = Inr w0"
    and w1: "check_pages e (check_abstract e (check_title e w0)) = Inr w1"
    and w2: "check_std_level e w1 = Inr w2"
    and w3: "check_stream e (check_state w2) = Inr w3"
    and w4: "check_group e w3 = Inr w4"
    and w5: "published_event now e w4 = Inr w5"
    and r: "(s', y) = finish_entry (errata_tags errata e (also_aliases e
           (relations ''updates'' (i_updates e) (relations ''obs'' (i_obsoletes e)
             (stream_states uah w5)))))"
    by (rule index_entry_bodyE)
  note sn = step_notes[where P = P, OF other]
  note fn = fold_notes[where P = P, OF other]
  have "\<forall>c \<in> set (w_changes (check_title e w0)). P c"
    by (rule sn(2)[OF sn(1)[OF w0]])
  then have "\<forall>c \<in> set (w_changes (check_abstract e (check_title e w0))). P c"
    using abs by (auto simp: check_abstract_def)
  then have "\<forall>c \<in> set (w_changes w1). P c"
    using w1 pgs by (auto simp: check_pages_def split: if_splits option.splits)
  then have "\<forall>c \<in> set (w_changes w2). P c" by (rule sn(3)[OF w2])
  then have "\<forall>c \<in> set (w_changes (check_state w2)). P c" by (rule sn(4))
  then have "\<forall>c \<in> set (w_changes w3). P c" by (rule sn(5)[OF w3])
  then have "\<forall>c \<in> set (w_changes w4). P c" by (rule sn(6)[OF w4])
  then have "\<forall>c \<in> set (w_changes w5). P c" by (rule sn(7)[OF w5])
  then have "\<forall>c \<in> set (w_changes (stream_states uah w5)). P c" by (rule fn(1))
  then have "\<forall>c \<in> set (w_changes (relations ''obs'' (i_obsoletes e) (stream_states uah w5))). P c"
    by (rule fn(2))
  then have "\<forall>c \<in> set (w_changes (relations ''updates'' (i_updates e)
      (relations ''obs'' (i_obsoletes e) (stream_states uah w5)))). P c"
    by (rule fn(2))
  then have "\<forall>c \<in> set (w_changes (also_aliases e (relations ''updates'' (i_updates e)
      (relations ''obs'' (i_obsoletes e) (stream_states uah w5))))). P c"
    by (rule fn(3))
  then have "\<forall>c \<in> set (w_changes (errata_tags errata e (also_aliases e (relations ''updates'' (i_updates e)
      (relations ''obs'' (i_obsoletes e) (stream_states uah w5)))))). P c"
    by (rule sn(11))
  then show ?thesis
    using r by (auto simp: finish_entry_def Let_def split: if_splits)
qed

lemma resolve_document_stored:
  assumes "resolve_document s e = Inr w" "map_of (documents s) (w_name w) = Some d0"
  shows "w_doc w = d0"
  using assms unfolding resolve_document_def
  by (auto simp: Let_def split: list.splits option.splits if_splits prod.splits)

text \<open>
  C3 (amended): the body of the loop has processed an entry whose document is named by
  \<open>w_name w0\<close>. Let \<open>associated\<close> be the errata records whose \<open>doc-id\<close> is \<open>RFC\<close> with
  the number padded to four digits, and let \<open>all_rejected\<close> mean that there is at least one
  associated record and that every one has the status \<open>Rejected\<close>. If the feed reports
  errata and not \<open>all_rejected\<close>, the document ends with the tag \<open>errata\<close>, and with
  \<open>verified-errata\<close> whenever an associated record has the status \<open>Verified\<close>; otherwise
  it ends with neither tag. When \<open>all_rejected\<close> holds and the document carried the tag
  \<open>errata\<close>, the notes yielded for the document contain
  \<open>removed Errata tag (all errata rejected)\<close>. In particular, when the feed reports errata
  and the one associated record is \<open>Verified\<close>, the document ends with both tags.
\<close>

theorem errata_tags_reconciled:
  assumes body: "index_entry_body uah now (group_errata errata_data) e s = Inr (s', y)"
    and res: "resolve_document s e = Inr w0"
    and assoc: "associated = filter (\<lambda>item. doc_id item = ''RFC'' @ fmt_04d (i_rfc_number e)) errata_data"
    and rej: "all_rejected = (associated \<noteq> [] \<and> (\<forall>er \<in> set associated. errata_status_code er = ''Rejected''))"
    and tags: "tags = set (doc_tags s' (w_name w0))"
  shows "(i_has_errata e \<and> \<not> all_rejected \<longrightarrow>
            ''errata'' \<in> tags
          \<and> ((\<exists>er \<in> set associated. errata_status_code er = ''Verified'') \<longrightarrow> ''verified-errata'' \<in> tags))
       \<and> (\<not> (i_has_errata e \<and> \<not> all_rejected) \<longrightarrow> ''errata'' \<notin> tags \<and> ''verified-errata'' \<notin> tags)
       \<and> (all_rejected \<and> ''errata'' \<in> set (doc_tags s (w_name w0)) \<longrightarrow>
            (\<exists>changes p. y = Some (changes, w_name w0, p) \<and> Removed_errata_tag_all_rejected \<in> set changes))
       \<and> (i_has_errata e \<and> (\<exists>er. associated = [er] \<and> errata_status_code er = ''Verified'') \<longrightarrow>
            ''errata'' \<in> tags \<and> ''verified-errata'' \<in> tags)"
proof -
  from body res obtain wa where
    fin: "(s', y) = finish_entry (errata_tags (group_errata errata_data) e wa)"
    and name: "w_name wa = w_name w0"
    and before: "doc_tags (w_db wa) = doc_tags s"
    by (rule body_summary)
  define wf where "wf = errata_tags (group_errata errata_data) e wa"
  have s': "s' = fst (finish_entry wf)" and y: "y = snd (finish_entry wf)"
    using arg_cong[OF fin, of fst] arg_cong[OF fin, of snd] by (simp_all add: wf_def)
  have de: "associated = (case group_errata errata_data (''RFC'' @ fmt_04d (i_rfc_number e)) of
      None \<Rightarrow> [] | Some l \<Rightarrow> l)"
    by (simp add: assoc group_errata_filter)
  have tg: "tags = set (doc_tags (w_db (errata_tags (group_errata errata_data) e wa)) (w_name wa))"
    by (simp add: tags s' finish_entry_frame wf_def name)
  note r = errata_tags_result[OF de rej tg]
  have a: "i_has_errata e \<and> \<not> all_rejected \<longrightarrow>
            ''errata'' \<in> tags
          \<and> ((\<exists>er \<in> set associated. errata_status_code er = ''Verified'') \<longrightarrow> ''verified-errata'' \<in> tags)"
    using r(1) by blast
  have b: "\<not> (i_has_errata e \<and> \<not> all_rejected) \<longrightarrow> ''errata'' \<notin> tags \<and> ''verified-errata'' \<notin> tags"
    using r(2) by blast
  have c: "all_rejected \<and> ''errata'' \<in> set (doc_tags s (w_name w0)) \<longrightarrow>
            (\<exists>changes p. y = Some (changes, w_name w0, p) \<and> Removed_errata_tag_all_rejected \<in> set changes)"
  proof
    assume h: "all_rejected \<and> ''errata'' \<in> set (doc_tags s (w_name w0))"
    then have "Removed_errata_tag_all_rejected \<in> set (w_changes wf)"
      using r(3) by (simp add: wf_def before name)
    moreover from this have "w_changes wf \<noteq> []" by auto
    ultimately show "\<exists>changes p. y = Some (changes, w_name w0, p) \<and> Removed_errata_tag_all_rejected \<in> set changes"
      by (simp add: y finish_entry_def Let_def wf_def errata_tags_frame name)
  qed
  have d: "i_has_errata e \<and> (\<exists>er. associated = [er] \<and> errata_status_code er = ''Verified'') \<longrightarrow>
            ''errata'' \<in> tags \<and> ''verified-errata'' \<in> tags"
  proof
    assume h: "i_has_errata e \<and> (\<exists>er. associated = [er] \<and> errata_status_code er = ''Verified'')"
    then have "\<not> all_rejected" by (auto simp: rej)
    moreover have "\<exists>er \<in> set associated. errata_status_code er = ''Verified''" using h by auto
    ultimately show "''errata'' \<in> tags \<and> ''verified-errata'' \<in> tags" using a h by blast
  qed
  show ?thesis using a b c d by blast
qed

lemma finish_entry_documents:
  "documents (fst (finish_entry w)) =
     (if w_changes w \<noteq> [] then AList.update (w_name w) (w_doc w) (documents (w_db w))
      else documents (w_db w))"
  by (simp add: finish_entry_def db_prims Let_def)

lemma empty_values_kept:
  assumes body: "index_entry_body uah now errata e s = Inr (s', y)"
    and res: "resolve_document s e = Inr w0"
  shows "(i_abstract e = [] \<longrightarrow>
            (\<forall>d0. map_of (documents s) (w_name w0) = Some d0 \<longrightarrow>
               (\<exists>d. map_of (documents s') (w_name w0) = Some d \<and> doc_abstract d = doc_abstract d0))
          \<and> (\<forall>changes n p a. y = Some (changes, n, p) \<longrightarrow> Changed_abstract a \<notin> set changes))
       \<and> (i_pages e = [] \<longrightarrow>
            (\<forall>d0. map_of (documents s) (w_name w0) = Some d0 \<longrightarrow>
               (\<exists>d. map_of (documents s') (w_name w0) = Some d \<and> doc_pages d = doc_pages d0))
          \<and> (\<forall>changes n p k. y = Some (changes, n, p) \<longrightarrow> Changed_pages k \<notin> set changes))"
proof -
  from body res obtain wa where
    fin: "(s', y) = finish_entry (errata_tags errata e wa)"
    and name: "w_name wa = w_name w0"
    and "doc_tags (w_db wa) = doc_tags s"
    and docs: "documents (w_db wa) = documents (w_db w0)"
    and abs: "i_abstract e = [] \<longrightarrow> doc_abstract (w_doc wa) = doc_abstract (w_doc w0)"
    and pgs: "i_pages e = [] \<longrightarrow> doc_pages (w_doc wa) = doc_pages (w_doc w0)"
    by (rule body_summary)
  define wf where "wf = errata_tags errata e wa"
  have wf: "w_name wf = w_name w0" "w_doc wf = w_doc wa" "documents (w_db wf) = documents (w_db w0)"
    by (simp_all add: wf_def errata_tags_frame name docs)
  have s': "s' = fst (finish_entry wf)"
    using arg_cong[OF fin, of fst] by (simp add: wf_def)
  have row0: "map_of (documents (w_db w0)) (w_name w0) = Some (w_doc w0)"
    using res by (rule resolve_document_frame(6))
  have row: "map_of (documents s') (w_name w0) = Some (w_doc wa) \<or> map_of (documents s') (w_name w0) = Some (w_doc w0)"
  proof (cases "w_changes wf \<noteq> []")
    case True
    then have "documents s' = AList.update (w_name w0) (w_doc wa) (documents (w_db w0))"
      by (simp add: s' finish_entry_documents wf)
    then show ?thesis by (simp add: update_conv')
  next
    case False
    then have "documents s' = documents (w_db w0)"
      by (simp add: s' finish_entry_documents wf)
    then show ?thesis using row0 by simp
  qed
  have sameA: "\<exists>d. map_of (documents s') (w_name w0) = Some d \<and> doc_abstract d = doc_abstract d0"
    if h: "i_abstract e = []" "map_of (documents s) (w_name w0) = Some d0" for d0
  proof -
    have "w_doc w0 = d0" using res h(2) by (rule resolve_document_stored)
    moreover have "doc_abstract (w_doc wa) = doc_abstract (w_doc w0)" using abs h(1) by simp
    ultimately show ?thesis using row by auto
  qed
  have sameP: "\<exists>d. map_of (documents s') (w_name w0) = Some d \<and> doc_pages d = doc_pages d0"
    if h: "i_pages e = []" "map_of (documents s) (w_name w0) = Some d0" for d0
  proof -
    have "w_doc w0 = d0" using res h(2) by (rule resolve_document_stored)
    moreover have "doc_pages (w_doc wa) = doc_pages (w_doc w0)" using pgs h(1) by simp
    ultimately show ?thesis using row by auto
  qed
  have noteA: "\<forall>changes n p. y = Some (changes, n, p) \<longrightarrow> (\<forall>c \<in> set changes. \<forall>a. c \<noteq> Changed_abstract a)"
    if "i_abstract e = []"
    by (rule body_notes[where P = "\<lambda>c. \<forall>a. c \<noteq> Changed_abstract a", OF body]) (simp_all add: that)
  have noteP: "\<forall>changes n p. y = Some (changes, n, p) \<longrightarrow> (\<forall>c \<in> set changes. \<forall>k. c \<noteq> Changed_pages k)"
    if "i_pages e = []"
    by (rule body_notes[where P = "\<lambda>c. \<forall>k. c \<noteq> Changed_pages k", OF body]) (simp_all add: that)
  have A: "i_abstract e = [] \<longrightarrow>
            (\<forall>d0. map_of (documents s) (w_name w0) = Some d0 \<longrightarrow>
               (\<exists>d. map_of (documents s') (w_name w0) = Some d \<and> doc_abstract d = doc_abstract d0))
          \<and> (\<forall>changes n p a. y = Some (changes, n, p) \<longrightarrow> Changed_abstract a \<notin> set changes)"
    using sameA noteA by blast
  have B: "i_pages e = [] \<longrightarrow>
            (\<forall>d0. map_of (documents s) (w_name w0) = Some d0 \<longrightarrow>
               (\<exists>d. map_of (documents s') (w_name w0) = Some d \<and> doc_pages d = doc_pages d0))
          \<and> (\<forall>changes n p k. y = Some (changes, n, p) \<longrightarrow> Changed_pages k \<notin> set changes)"
    using sameP noteP by blast
  show ?thesis using A B by (rule conjI)
qed

text \<open>a settled entry: every step is a no-op\<close>

lemma resolve_document_known:
  assumes "entry_document s e = Some dn" "map_of (documents s) dn = Some d"
  shows "resolve_document s e =
           Inr \<lparr>w_db = s, w_name = dn, w_doc = d, w_changes = [], w_events = [], w_rfc_published = False\<rparr>"
  using assms unfolding entry_document_def resolve_document_def
  by (auto simp: Let_def split: list.splits prod.splits)

lemma fields_noop:
  assumes "fields_settled e (w_doc w)"
  shows "check_title e w = w" "check_abstract e w = w" "check_pages e w = Inr w"
    "check_std_level e w = Inr w" "check_stream e w = Inr w"
  using assms
  by (auto simp: fields_settled_def check_title_def check_abstract_def check_pages_def
        check_std_level_def check_stream_def)

lemma check_state_noop:
  assumes "states_settled (w_db w) (w_name w)"
  shows "check_state w = w"
  using assms by (simp add: states_settled_def check_state_def)

lemma check_group_noop:
  assumes "group_settled (w_db w) e (w_doc w)"
  shows "\<exists>w'. check_group e w = Inr w' \<and> w_db w' = w_db w \<and> w_name w' = w_name w
            \<and> w_changes w' = w_changes w"
  using assms
  by (auto simp: group_settled_def check_group_def split: sum.splits prod.splits)

lemma published_event_noop:
  assumes "latest_event (w_db w) (w_name w) ''published_rfc''"
  shows "published_event now e w = Inr w"
  using assms by (simp add: published_event_def)

lemma stream_state_step_noop:
  assumes "get_state (w_db w) (w_name w) t \<in> {Some ''pub'', Some ''idexists''}
           \<or> (get_state (w_db w) (w_name w) t = None \<and> t \<noteq> ''draft-iesg'')"
  shows "stream_state_step uah t w = w"
  using assms by (auto simp: stream_state_step_def)

lemma stream_states_noop:
  assumes "states_settled (w_db w) (w_name w)"
  shows "stream_states uah w = w"
proof -
  have a: "stream_state_step uah ''draft-iesg'' w = w"
    by (rule stream_state_step_noop) (use assms in \<open>simp add: states_settled_def\<close>)
  have b: "stream_state_step uah ''draft-stream-iab'' w = w"
    by (rule stream_state_step_noop) (use assms in \<open>auto simp: states_settled_def\<close>)
  have c: "stream_state_step uah ''draft-stream-irtf'' w = w"
    by (rule stream_state_step_noop) (use assms in \<open>auto simp: states_settled_def\<close>)
  have d: "stream_state_step uah ''draft-stream-ise'' w = w"
    by (rule stream_state_step_noop) (use assms in \<open>auto simp: states_settled_def\<close>)
  show ?thesis by (simp add: stream_states_def a b c d)
qed

lemma relation_fold_noop:
  assumes "\<forall>x \<in> set xs. (w_name w, x, r) \<in> set (relateddocument (w_db w))"
  shows "foldl (relation_step r) w xs = w"
  using assms by (induction xs) (simp_all add: relation_step_def)

lemma also_fold_noop:
  assumes "\<forall>a \<in> set xs. filter (\<lambda>(n, ds). n = py_lower a) (docalias (w_db w)) \<noteq> []"
  shows "foldl also_step w xs = w"
  using assms by (induction xs) (simp_all add: also_step_def Let_def)

lemma errata_tags_noop:
  assumes "tags_settled errata (w_db w) e (w_name w)"
  shows "errata_tags errata e w = w"
proof -
  define doc_errata where
    "doc_errata = (case errata (''RFC'' @ fmt_04d (i_rfc_number e)) of None \<Rightarrow> [] | Some l \<Rightarrow> l)"
  define all_rejected where
    "all_rejected = (doc_errata \<noteq> [] \<and> (\<forall>er \<in> set doc_errata. errata_status_code er = ''Rejected''))"
  define verified where "verified = (\<exists>er \<in> set doc_errata. errata_status_code er = ''Verified'')"
  have t: "if i_has_errata e \<and> \<not> all_rejected
      then ''errata'' \<in> set (doc_tags (w_db w) (w_name w))
         \<and> (verified \<longrightarrow> ''verified-errata'' \<in> set (doc_tags (w_db w) (w_name w)))
      else ''errata'' \<notin> set (doc_tags (w_db w) (w_name w))
         \<and> ''verified-errata'' \<notin> set (doc_tags (w_db w) (w_name w))"
    using assms unfolding tags_settled_def Let_def doc_errata_def all_rejected_def verified_def .
  have "errata_tags errata e w =
     (if i_has_errata e \<and> \<not> all_rejected then
           (let w = (if ''errata'' \<notin> set (doc_tags (w_db w) (w_name w))
                     then w\<lparr>w_db := tags_add (w_name w) ''errata'' (w_db w),
                            w_changes := w_changes w @ [Added_errata_tag]\<rparr>
                     else w)
            in if verified \<and> ''verified-errata'' \<notin> set (doc_tags (w_db w) (w_name w))
               then w\<lparr>w_db := tags_add (w_name w) ''verified-errata'' (w_db w),
                      w_changes := w_changes w @ [Added_verified_errata_tag]\<rparr>
               else w)
         else
           (let w = (if ''errata'' \<in> set (doc_tags (w_db w) (w_name w))
                     then w\<lparr>w_db := tags_remove (w_name w) [''errata''] (w_db w),
                            w_changes := w_changes w @
                              [if all_rejected then Removed_errata_tag_all_rejected else Removed_errata_tag]\<rparr>
                     else w)
            in if ''verified-errata'' \<in> set (doc_tags (w_db w) (w_name w))
               then w\<lparr>w_db := tags_remove (w_name w) [''verified-errata''] (w_db w),
                      w_changes := w_changes w @ [Removed_verified_errata_tag]\<rparr>
               else w))"
    unfolding errata_tags_def doc_errata_def all_rejected_def verified_def Let_def ..
  also have "\<dots> = w"
    using t by (cases "i_has_errata e \<and> \<not> all_rejected") (auto simp: Let_def)
  finally show ?thesis .
qed

lemma settled_noop:
  assumes doc: "entry_document s e = Some dn"
    and st: "entry_settled errata s e dn"
    and rel: "relations_settled s e"
  shows "index_entry_body uah now errata e s = Inr (s, None)"
proof -
  from st obtain d where row: "map_of (documents s) dn = Some d"
    and f: "fields_settled e d" and g: "group_settled s e d" and sts: "states_settled s dn"
    and ev: "latest_event s dn ''published_rfc''" and al: "aliases_settled s e"
    and tg: "tags_settled errata s e dn"
    by (auto simp: entry_settled_def split: option.splits)
  define w0 where "w0 = \<lparr>w_db = s, w_name = dn, w_doc = d, w_changes = [], w_events = [],
      w_rfc_published = False\<rparr>"
  have w0: "w_db w0 = s" "w_name w0 = dn" "w_doc w0 = d" "w_changes w0 = []"
    by (simp_all add: w0_def)
  have r: "resolve_document s e = Inr w0"
    unfolding w0_def using doc row by (rule resolve_document_known)
  have f0: "fields_settled e (w_doc w0)" using f by (simp add: w0)
  have s0: "states_settled (w_db w0) (w_name w0)" using sts by (simp add: w0)
  have c1: "check_pages e (check_abstract e (check_title e w0)) = Inr w0"
    by (simp add: fields_noop[OF f0])
  have c2: "check_std_level e w0 = Inr w0" by (rule fields_noop[OF f0])
  have c3: "check_stream e (check_state w0) = Inr w0"
    by (simp add: check_state_noop[OF s0] fields_noop[OF f0])
  have "group_settled (w_db w0) e (w_doc w0)" using g by (simp add: w0)
  from check_group_noop[OF this] obtain w4 where
    c4: "check_group e w0 = Inr w4" and w4: "w_db w4 = s" "w_name w4 = dn" "w_changes w4 = []"
    by (auto simp: w0)
  have c5: "published_event now e w4 = Inr w4"
    by (rule published_event_noop) (simp add: w4 ev)
  have c6: "stream_states uah w4 = w4"
    by (rule stream_states_noop) (simp add: w4 sts)
  have rel': "(\<forall>x \<in> set (parse_relation_list s (i_obsoletes e)). (dn, x, ''obs'') \<in> set (relateddocument s))
        \<and> (\<forall>x \<in> set (parse_relation_list s (i_updates e)). (dn, x, ''updates'') \<in> set (relateddocument s))"
    using rel doc by (simp add: relations_settled_def)
  have c7: "relations ''obs'' (i_obsoletes e) w4 = w4"
    unfolding relations_def by (rule relation_fold_noop) (simp add: w4 rel')
  have c8: "relations ''updates'' (i_updates e) w4 = w4"
    unfolding relations_def by (rule relation_fold_noop) (simp add: w4 rel')
  have c9: "also_aliases e w4 = w4"
    unfolding also_aliases_def by (rule also_fold_noop) (use al in \<open>simp add: w4 aliases_settled_def\<close>)
  have c10: "errata_tags errata e w4 = w4"
    by (rule errata_tags_noop) (simp add: w4 tg)
  have c11: "finish_entry w4 = (s, None)" by (simp add: finish_entry_def w4)
  show ?thesis
    by (simp add: index_entry_body_def and_then_def r c1 c2 c3 c4 c5 c6 c7 c8 c9 c10 c11)
qed

lemma settled_loop:
  assumes "\<forall>e \<in> set es. \<not> skipped skip e \<longrightarrow>
      (\<exists>dn. entry_document s e = Some dn \<and> entry_settled errata s e dn) \<and> relations_settled s e"
  shows "index_loop uah now errata skip es s = Inr (s, [])"
  using assms
proof (induction es)
  case Nil
  show ?case by simp
next
  case (Cons e es)
  have rest: "index_loop uah now errata skip es s = Inr (s, [])"
    using Cons by simp
  show ?case
  proof (cases "skipped skip e")
    case True
    then show ?thesis using rest by simp
  next
    case False
    then obtain dn where "entry_document s e = Some dn" "entry_settled errata s e dn"
      "relations_settled s e"
      using Cons.prems by auto
    then have "index_entry_body uah now errata e s = Inr (s, None)" by (rule settled_noop)
    then show ?thesis using False rest by simp
  qed
qed

lemma kept_refl: "kept dn s s"
  by (simp add: kept_def)

lemma kept_trans:
  assumes "kept dn s s'" "kept dn s' s''"
  shows "kept dn s s''"
proof -
  obtain a1 e1 where 1: "docalias s' = docalias s @ a1" "docevents s' = docevents s @ e1"
    using assms(1) by (auto simp: kept_def)
  obtain a2 e2 where 2: "docalias s'' = docalias s' @ a2" "docevents s'' = docevents s' @ e2"
    using assms(2) by (auto simp: kept_def)
  have "docalias s'' = docalias s @ (a1 @ a2)" "docevents s'' = docevents s @ (e1 @ e2)"
    using 1 2 by simp_all
  then have "(\<exists>extra. docalias s'' = docalias s @ extra) \<and> (\<exists>extra. docevents s'' = docevents s @ extra)"
    by blast
  moreover have "groups s'' = groups s" using assms by (simp add: kept_def)
  moreover have "\<forall>n. n \<noteq> dn \<longrightarrow> doc_states s'' n = doc_states s n \<and> doc_tags s'' n = doc_tags s n
                \<and> map_of (documents s'') n = map_of (documents s) n"
    using assms by (simp add: kept_def)
  ultimately show ?thesis unfolding kept_def by blast
qed

lemma kept_same:
  assumes "docalias s' = docalias s" "docevents s' = docevents s" "groups s' = groups s"
    "doc_states s' = doc_states s" "doc_tags s' = doc_tags s" "documents s' = documents s"
  shows "kept dn s s'"
  using assms by (simp add: kept_def)

lemma resolve_document_kept:
  assumes "resolve_document s e = Inr w"
  shows "kept (w_name w) s (w_db w)"
  using assms unfolding resolve_document_def kept_def
  by (auto simp: Let_def map_add_def split: list.splits option.splits if_splits prod.splits)

lemma check_state_kept: "kept (w_name w) (w_db w) (w_db (check_state w))"
  by (simp add: check_state_def kept_def set_state_def)

lemma published_event_kept:
  assumes "published_event now e w = Inr w'"
  shows "kept (w_name w) (w_db w) (w_db w')"
  using assms
  by (auto simp: published_event_def kept_def save_event_def Let_def split: if_splits option.splits sum.splits)

lemma stream_state_step_kept: "kept (w_name w) (w_db w) (w_db (stream_state_step uah t w))"
  by (simp add: stream_state_step_def kept_def set_state_def save_optional_event_def save_event_def
        Let_def split: option.splits)

lemma kept_fold:
  assumes step: "\<And>w x. kept (w_name w) (w_db w) (w_db (f w x))"
    and name: "\<And>w x. w_name (f w x) = w_name w"
  shows "kept (w_name w) (w_db w) (w_db (foldl f w xs))"
proof (induction xs arbitrary: w)
  case Nil
  show ?case by (simp add: kept_refl)
next
  case (Cons x xs)
  have "kept (w_name w) (w_db (f w x)) (w_db (foldl f (f w x) xs))"
    using Cons.IH[of "f w x"] by (simp add: name)
  then have "kept (w_name w) (w_db w) (w_db (foldl f (f w x) xs))"
    using step[of w x] kept_trans by blast
  then show ?case by simp
qed

lemma stream_states_kept: "kept (w_name w) (w_db w) (w_db (stream_states uah w))"
  unfolding stream_states_def
  by (rule kept_fold) (simp_all add: stream_state_step_kept stream_state_step_frame)

lemma relation_step_kept: "kept (w_name w) (w_db w) (w_db (relation_step r w x))"
  by (simp add: relation_step_def kept_def)

lemma relation_fold_kept: "kept (w_name w) (w_db w) (w_db (foldl (relation_step r) w xs))"
  by (rule kept_fold) (simp_all add: relation_step_kept relation_step_frame)

lemma relations_kept: "kept (w_name w) (w_db w) (w_db (relations r l w))"
  by (simp add: relations_def relation_fold_kept)

lemma also_step_kept: "kept (w_name w) (w_db w) (w_db (also_step w a))"
  by (simp add: also_step_def kept_def Let_def)

lemma also_fold_kept: "kept (w_name w) (w_db w) (w_db (foldl also_step w xs))"
  by (rule kept_fold) (simp_all add: also_step_kept also_step_frame)

lemma also_aliases_kept: "kept (w_name w) (w_db w) (w_db (also_aliases e w))"
  by (simp add: also_aliases_def also_fold_kept)

lemma errata_tags_kept: "kept (w_name w) (w_db w) (w_db (errata_tags errata e w))"
  by (simp add: errata_tags_def kept_def tags_add_def tags_remove_def Let_def)

lemma finish_entry_kept: "kept (w_name w) (w_db w) (fst (finish_entry w))"
  by (simp add: finish_entry_def kept_def save_event_def save_with_history_def Let_def update_conv')

text \<open>the names of the work records along the body\<close>

lemma body_steps:
  assumes "index_entry_body uah now errata e s = Inr (s', y)"
  obtains w0 w1 w2 w3 w4 w5 u v a t where
    "resolve_document s e = Inr w0"
    "check_pages e (check_abstract e (check_title e w0)) = Inr w1"
    "check_std_level e w1 = Inr w2"
    "check_stream e (check_state w2) = Inr w3"
    "check_group e w3 = Inr w4"
    "published_event now e w4 = Inr w5"
    "u = stream_states uah w5"
    "v = relations ''updates'' (i_updates e) (relations ''obs'' (i_obsoletes e) u)"
    "a = also_aliases e v"
    "t = errata_tags errata e a"
    "s' = fst (finish_entry t)" "y = snd (finish_entry t)"
    "w_name w1 = w_name w0" "w_name w2 = w_name w0" "w_name w3 = w_name w0" "w_name w4 = w_name w0"
    "w_name w5 = w_name w0" "w_name u = w_name w0" "w_name v = w_name w0" "w_name a = w_name w0"
    "w_name t = w_name w0"
    "w_db w1 = w_db w0" "w_db w2 = w_db w0" "w_db w3 = w_db (check_state w2)" "w_db w4 = w_db w3"
proof -
  from assms obtain w0 w1 w2 w3 w4 w5 where
    w0: "resolve_document s e = Inr w0"
    and w1: "check_pages e (check_abstract e (check_title e w0)) = Inr w1"
    and w2: "check_std_level e w1 = Inr w2"
    and w3: "check_stream e (check_state w2) = Inr w3"
    and w4: "check_group e w3 = Inr w4"
    and w5: "published_event now e w4 = Inr w5"
    and r: "(s', y) = finish_entry (errata_tags errata e (also_aliases e
           (relations ''updates'' (i_updates e) (relations ''obs'' (i_obsoletes e)
             (stream_states uah w5)))))"
    by (rule index_entry_bodyE)
  define u where "u = stream_states uah w5"
  define v where "v = relations ''updates'' (i_updates e) (relations ''obs'' (i_obsoletes e) u)"
  define a where "a = also_aliases e v"
  define t where "t = errata_tags errata e a"
  have fin: "s' = fst (finish_entry t)" "y = snd (finish_entry t)"
    using arg_cong[OF r, of fst] arg_cong[OF r, of snd] by (simp_all add: t_def a_def v_def u_def)
  have n1: "w_name w1 = w_name w0" and d1: "w_db w1 = w_db w0"
    using check_pages_frame(1,2)[OF w1] by (simp_all add: check_abstract_frame check_title_frame)
  have n2: "w_name w2 = w_name w0" and d2: "w_db w2 = w_db w0"
    using check_std_level_frame(1,2)[OF w2] n1 d1 by simp_all
  have n3: "w_name w3 = w_name w0" and d3: "w_db w3 = w_db (check_state w2)"
    using check_stream_frame(1,2)[OF w3] n2 by (simp_all add: check_state_frame)
  have n4: "w_name w4 = w_name w0" and d4: "w_db w4 = w_db w3"
    using check_group_frame(1,2)[OF w4] n3 by simp_all
  have n5: "w_name w5 = w_name w0"
    using published_event_frame(1)[OF w5] n4 by simp
  have nu: "w_name u = w_name w0" by (simp add: u_def stream_states_frame n5)
  have nv: "w_name v = w_name w0" by (simp add: v_def relations_frame nu)
  have na: "w_name a = w_name w0" by (simp add: a_def also_aliases_frame nv)
  have nt: "w_name t = w_name w0" by (simp add: t_def errata_tags_frame na)
  show thesis
    using that[OF w0 w1 w2 w3 w4 w5 u_def v_def a_def t_def fin n1 n2 n3 n4 n5 nu nv na nt d1 d2 d3 d4] .
qed

lemma body_kept:
  assumes body: "index_entry_body uah now errata e s = Inr (s', y)"
    and res: "resolve_document s e = Inr w"
  shows "kept (w_name w) s s'"
proof -
  from body obtain w0 w1 w2 w3 w4 w5 u v a t where
    w0: "resolve_document s e = Inr w0"
    and w1: "check_pages e (check_abstract e (check_title e w0)) = Inr w1"
    and w2: "check_std_level e w1 = Inr w2"
    and w3: "check_stream e (check_state w2) = Inr w3"
    and w4: "check_group e w3 = Inr w4"
    and w5: "published_event now e w4 = Inr w5"
    and u: "u = stream_states uah w5"
    and v: "v = relations ''updates'' (i_updates e) (relations ''obs'' (i_obsoletes e) u)"
    and a: "a = also_aliases e v"
    and t: "t = errata_tags errata e a"
    and fin: "s' = fst (finish_entry t)" "y = snd (finish_entry t)"
    and n: "w_name w1 = w_name w0" "w_name w2 = w_name w0" "w_name w3 = w_name w0" "w_name w4 = w_name w0"
    "w_name w5 = w_name w0" "w_name u = w_name w0" "w_name v = w_name w0" "w_name a = w_name w0"
    "w_name t = w_name w0"
    and d: "w_db w1 = w_db w0" "w_db w2 = w_db w0" "w_db w3 = w_db (check_state w2)" "w_db w4 = w_db w3"
    by (rule body_steps)
  have eq: "w0 = w" using w0 res by simp
  let ?n = "w_name w0"
  have k0: "kept ?n s (w_db w0)" using w0 by (rule resolve_document_kept)
  have k3: "kept ?n (w_db w0) (w_db w4)"
    using check_state_kept[of w2] by (simp add: d n)
  have k5: "kept ?n (w_db w4) (w_db w5)"
    using published_event_kept[OF w5] by (simp add: n)
  have ku: "kept ?n (w_db w5) (w_db u)"
    using stream_states_kept[of w5 uah] by (simp add: u n)
  define v1 where "v1 = relations ''obs'' (i_obsoletes e) u"
  have kv1: "kept ?n (w_db u) (w_db v1)"
    using relations_kept[of u "''obs''" "i_obsoletes e"] by (simp add: v1_def n)
  have kv: "kept ?n (w_db v1) (w_db v)"
    using relations_kept[of v1 "''updates''" "i_updates e"] by (simp add: v v1_def relations_frame n)
  have ka: "kept ?n (w_db v) (w_db a)"
    using also_aliases_kept[of v e] by (simp add: a n)
  have kt: "kept ?n (w_db a) (w_db t)"
    using errata_tags_kept[of a errata e] by (simp add: t n)
  have kf: "kept ?n (w_db t) s'"
    using finish_entry_kept[of t] by (simp add: fin n)
  show ?thesis
    using kept_trans[OF k0 kept_trans[OF k3 kept_trans[OF k5 kept_trans[OF ku kept_trans[OF kv1
      kept_trans[OF kv kept_trans[OF ka kept_trans[OF kt kf]]]]]]]] eq by simp
qed

text \<open>what the body of another document leaves of a settled entry\<close>

lemma entry_document_kept:
  assumes "kept dn' s s'" "entry_document s e = Some dn"
  shows "entry_document s' e = Some dn"
proof -
  obtain extra where x: "docalias s' = docalias s @ extra"
    using assms(1) by (auto simp: kept_def)
  show ?thesis
    using assms(2) unfolding entry_document_def x
    by (auto split: list.splits prod.splits)
qed

lemma latest_event_kept:
  assumes "kept dn' s s'" "latest_event s dn t"
  shows "latest_event s' dn t"
proof -
  obtain extra where x: "docevents s' = docevents s @ extra"
    using assms(1) by (auto simp: kept_def)
  show ?thesis using assms(2) unfolding latest_event_def x by auto
qed

lemma aliases_settled_kept:
  assumes "kept dn' s s'" "aliases_settled s e"
  shows "aliases_settled s' e"
proof -
  obtain extra where x: "docalias s' = docalias s @ extra"
    using assms(1) by (auto simp: kept_def)
  show ?thesis using assms(2) unfolding aliases_settled_def x by simp
qed

lemma entry_settled_kept:
  assumes st: "entry_settled errata s e dn" and k: "kept dn' s s'" and ne: "dn \<noteq> dn'"
  shows "entry_settled errata s' e dn"
proof -
  from st obtain d where row: "map_of (documents s) dn = Some d"
    and f: "fields_settled e d" and g: "group_settled s e d" and sts: "states_settled s dn"
    and ev: "latest_event s dn ''published_rfc''" and al: "aliases_settled s e"
    and tg: "tags_settled errata s e dn"
    by (auto simp: entry_settled_def split: option.splits)
  have same: "doc_states s' dn = doc_states s dn" "doc_tags s' dn = doc_tags s dn"
    "map_of (documents s') dn = map_of (documents s) dn" "groups s' = groups s"
    using k ne by (simp_all add: kept_def)
  have row': "map_of (documents s') dn = Some d" using row same by simp
  have g': "group_settled s' e d" using g by (simp add: group_settled_def same)
  have sts': "states_settled s' dn" using sts by (simp add: states_settled_def get_state_def same)
  have ev': "latest_event s' dn ''published_rfc''" using k ev by (rule latest_event_kept)
  have al': "aliases_settled s' e" using k al by (rule aliases_settled_kept)
  have tg': "tags_settled errata s' e dn" using tg unfolding tags_settled_def same(2) .
  show ?thesis using row' f g' sts' ev' al' tg' by (simp add: entry_settled_def)
qed

text \<open>what the body establishes for its own document\<close>

lemma resolve_document_alias:
  assumes "resolve_document s e = Inr w"
  shows "entry_document (w_db w) e = Some (w_name w)"
  using assms unfolding resolve_document_def entry_document_def
  by (auto simp: Let_def split: list.splits option.splits if_splits prod.splits)

lemma check_state_sets: "get_state (w_db (check_state w)) (w_name w) ''draft'' = Some ''rfc''"
  by (simp add: check_state_def get_state_def set_state_def)

lemma upd_same: "f n t = v \<Longrightarrow> f(n := (f n)(t := v)) = f"
  by (auto simp: fun_eq_iff)

lemma stream_state_step_db:
  "\<exists>v. doc_states (w_db (stream_state_step uah t w))
          = (doc_states (w_db w))(w_name w := (doc_states (w_db w) (w_name w))(t := v))
       \<and> (v \<in> {Some ''pub'', Some ''idexists''} \<or> (v = None \<and> t \<noteq> ''draft-iesg''))"
proof (cases "doc_states (w_db w) (w_name w) t")
  case None
  show ?thesis
  proof (cases "t = ''draft-iesg''")
    case True
    have "doc_states (w_db (stream_state_step uah t w))
          = (doc_states (w_db w))(w_name w := (doc_states (w_db w) (w_name w))(t := Some ''idexists''))"
      using None True by (simp add: stream_state_step_def get_state_def set_state_def)
    then show ?thesis by blast
  next
    case False
    have "doc_states (w_db (stream_state_step uah t w))
          = (doc_states (w_db w))(w_name w := (doc_states (w_db w) (w_name w))(t := None))"
      using None False by (simp add: stream_state_step_def get_state_def upd_same)
    then show ?thesis using False by blast
  qed
next
  case (Some p)
  show ?thesis
  proof (cases "p \<in> set [''pub'', ''idexists'']")
    case True
    have "doc_states (w_db (stream_state_step uah t w))
          = (doc_states (w_db w))(w_name w := (doc_states (w_db w) (w_name w))(t := Some p))"
      using Some True by (simp add: stream_state_step_def get_state_def upd_same)
    moreover have "Some p \<in> {Some ''pub'', Some ''idexists''}" using True by simp
    ultimately show ?thesis by blast
  next
    case False
    have "doc_states (w_db (stream_state_step uah t w))
          = (doc_states (w_db w))(w_name w := (doc_states (w_db w) (w_name w))(t := Some ''pub''))"
      using Some False
      by (simp add: stream_state_step_def get_state_def set_state_def save_optional_event_def
            save_event_def Let_def split: option.splits)
    then show ?thesis by blast
  qed
qed

lemma stream_state_step_other:
  "t' \<noteq> t \<Longrightarrow> get_state (w_db (stream_state_step uah t w)) (w_name w) t' = get_state (w_db w) (w_name w) t'"
  using stream_state_step_db[of uah t w] by (auto simp: get_state_def)

lemma stream_state_step_own:
  "get_state (w_db (stream_state_step uah t w)) (w_name w) t \<in> {Some ''pub'', Some ''idexists''}
   \<or> (get_state (w_db (stream_state_step uah t w)) (w_name w) t = None \<and> t \<noteq> ''draft-iesg'')"
  using stream_state_step_db[of uah t w] by (auto simp: get_state_def)

lemma stream_states_settles:
  assumes "get_state (w_db w) (w_name w) ''draft'' = Some ''rfc''"
  shows "states_settled (w_db (stream_states uah w)) (w_name w)"
proof -
  define w1 where "w1 = stream_state_step uah ''draft-iesg'' w"
  define w2 where "w2 = stream_state_step uah ''draft-stream-iab'' w1"
  define w3 where "w3 = stream_state_step uah ''draft-stream-irtf'' w2"
  define w4 where "w4 = stream_state_step uah ''draft-stream-ise'' w3"
  have n: "w_name w1 = w_name w" "w_name w2 = w_name w" "w_name w3 = w_name w"
    by (simp_all add: w1_def w2_def w3_def stream_state_step_frame)
  have fin: "stream_states uah w = w4"
    by (simp add: stream_states_def w1_def w2_def w3_def w4_def)
  have o1: "t' \<noteq> ''draft-iesg'' \<Longrightarrow> get_state (w_db w1) (w_name w) t' = get_state (w_db w) (w_name w) t'" for t'
    unfolding w1_def by (rule stream_state_step_other)
  have o2: "t' \<noteq> ''draft-stream-iab'' \<Longrightarrow> get_state (w_db w2) (w_name w) t' = get_state (w_db w1) (w_name w) t'" for t'
    using stream_state_step_other[of t' "''draft-stream-iab''" uah w1] by (simp add: w2_def n)
  have o3: "t' \<noteq> ''draft-stream-irtf'' \<Longrightarrow> get_state (w_db w3) (w_name w) t' = get_state (w_db w2) (w_name w) t'" for t'
    using stream_state_step_other[of t' "''draft-stream-irtf''" uah w2] by (simp add: w3_def n)
  have o4: "t' \<noteq> ''draft-stream-ise'' \<Longrightarrow> get_state (w_db w4) (w_name w) t' = get_state (w_db w3) (w_name w) t'" for t'
    using stream_state_step_other[of t' "''draft-stream-ise''" uah w3] by (simp add: w4_def n)
  have a: "get_state (w_db w4) (w_name w) ''draft'' = Some ''rfc''"
    using assms by (simp add: o1 o2 o3 o4)
  have "get_state (w_db w1) (w_name w) ''draft-iesg'' \<in> {Some ''pub'', Some ''idexists''}"
    using stream_state_step_own[of uah "''draft-iesg''" w] by (simp add: w1_def)
  then have b: "get_state (w_db w4) (w_name w) ''draft-iesg'' \<in> {Some ''pub'', Some ''idexists''}"
    by (simp add: o2 o3 o4)
  have "get_state (w_db w2) (w_name w) ''draft-stream-iab'' \<in> {None, Some ''pub'', Some ''idexists''}"
    using stream_state_step_own[of uah "''draft-stream-iab''" w1] by (auto simp: w2_def n)
  then have c: "get_state (w_db w4) (w_name w) ''draft-stream-iab'' \<in> {None, Some ''pub'', Some ''idexists''}"
    by (simp add: o3 o4)
  have "get_state (w_db w3) (w_name w) ''draft-stream-irtf'' \<in> {None, Some ''pub'', Some ''idexists''}"
    using stream_state_step_own[of uah "''draft-stream-irtf''" w2] by (auto simp: w3_def n)
  then have d: "get_state (w_db w4) (w_name w) ''draft-stream-irtf'' \<in> {None, Some ''pub'', Some ''idexists''}"
    by (simp add: o4)
  have e: "get_state (w_db w4) (w_name w) ''draft-stream-ise'' \<in> {None, Some ''pub'', Some ''idexists''}"
    using stream_state_step_own[of uah "''draft-stream-ise''" w3] by (auto simp: w4_def n)
  show ?thesis unfolding fin states_settled_def using a b c d e by blast
qed

lemma states_frames:
  "published_event now e w = Inr w' \<Longrightarrow> doc_states (w_db w') = doc_states (w_db w)"
  "doc_states (w_db (relation_step r w x)) = doc_states (w_db w)"
  "doc_states (w_db (also_step w a)) = doc_states (w_db w)"
  "doc_states (w_db (errata_tags errata e w)) = doc_states (w_db w)"
  "doc_states (fst (finish_entry w)) = doc_states (w_db w)"
  by (auto simp: published_event_def relation_step_def also_step_def errata_tags_def finish_entry_def
        db_prims Let_def split: if_splits option.splits sum.splits)

lemma relation_fold_states: "doc_states (w_db (foldl (relation_step r) w xs)) = doc_states (w_db w)"
  by (induction xs arbitrary: w) (simp_all add: states_frames)

lemma also_fold_states: "doc_states (w_db (foldl also_step w xs)) = doc_states (w_db w)"
  by (induction xs arbitrary: w) (simp_all add: states_frames)

lemma published_event_sets:
  assumes "published_event now e w = Inr w'"
  shows "latest_event (w_db w') (w_name w) ''published_rfc''"
  using assms
  by (auto simp: published_event_def latest_event_def save_event_def Let_def
        split: if_splits option.splits sum.splits)

lemma also_step_sets:
  "filter (\<lambda>(n, ds). n = py_lower a) (docalias (w_db (also_step w a))) \<noteq> []"
  by (simp add: also_step_def Let_def)

lemma alias_kept:
  assumes "kept dn s s'" "filter P (docalias s) \<noteq> []"
  shows "filter P (docalias s') \<noteq> []"
proof -
  obtain extra where x: "docalias s' = docalias s @ extra"
    using assms(1) by (auto simp: kept_def)
  show ?thesis using assms(2) by (simp add: x)
qed

lemma also_fold_settles:
  "\<forall>a \<in> set xs. filter (\<lambda>(n, ds). n = py_lower a) (docalias (w_db (foldl also_step w xs))) \<noteq> []"
proof (induction xs arbitrary: w)
  case Nil
  show ?case by simp
next
  case (Cons x xs)
  have "filter (\<lambda>(n, ds). n = py_lower x) (docalias (w_db (foldl also_step (also_step w x) xs))) \<noteq> []"
    using also_fold_kept[of "also_step w x" xs] also_step_sets[of x w] by (rule alias_kept)
  then show ?case using Cons.IH[of "also_step w x"] by simp
qed

lemma also_aliases_settles: "aliases_settled (w_db (also_aliases e w)) e"
  unfolding aliases_settled_def also_aliases_def by (rule also_fold_settles)

lemma errata_tags_settles: "tags_settled errata (w_db (errata_tags errata e w)) e (w_name w)"
proof -
  define doc_errata where
    "doc_errata = (case errata (''RFC'' @ fmt_04d (i_rfc_number e)) of None \<Rightarrow> [] | Some l \<Rightarrow> l)"
  define all_rejected where
    "all_rejected = (doc_errata \<noteq> [] \<and> (\<forall>er \<in> set doc_errata. errata_status_code er = ''Rejected''))"
  define tags where "tags = set (doc_tags (w_db (errata_tags errata e w)) (w_name w))"
  note r = errata_tags_result[OF doc_errata_def all_rejected_def tags_def]
  have "if i_has_errata e \<and> \<not> all_rejected
      then ''errata'' \<in> tags
         \<and> ((\<exists>er \<in> set doc_errata. errata_status_code er = ''Verified'') \<longrightarrow> ''verified-errata'' \<in> tags)
      else ''errata'' \<notin> tags \<and> ''verified-errata'' \<notin> tags"
    using r(1) r(2) by (cases "i_has_errata e \<and> \<not> all_rejected") simp_all
  then show ?thesis
    unfolding tags_settled_def Let_def doc_errata_def all_rejected_def tags_def .
qed

text \<open>the fields of the object after the checks\<close>

lemma check_title_doc: "w_doc (check_title e w) = (w_doc w)\<lparr>doc_title := i_title e\<rparr>"
  by (simp add: check_title_def)

lemma check_abstract_doc:
  "w_doc (check_abstract e w) =
     (if i_abstract e = [] then w_doc w else (w_doc w)\<lparr>doc_abstract := i_abstract e\<rparr>)"
  by (simp add: check_abstract_def)

lemma check_pages_doc:
  assumes "check_pages e w = Inr w'"
  shows "w_doc w' = (if i_pages e = [] then w_doc w else (w_doc w)\<lparr>doc_pages := py_int (i_pages e)\<rparr>)"
    "i_pages e \<noteq> [] \<longrightarrow> py_int (i_pages e) \<noteq> None"
  using assms by (auto simp: check_pages_def split: if_splits option.splits)

lemma check_std_level_doc:
  assumes "check_std_level e w = Inr w'"
  shows "w_doc w' = (w_doc w)\<lparr>doc_std_level := map_of std_level_mapping (i_current_status e)\<rparr>"
    "map_of std_level_mapping (i_current_status e) \<noteq> None"
  using assms by (auto simp: check_std_level_def split: if_splits option.splits)

lemma check_stream_doc:
  assumes "check_stream e w = Inr w'"
  shows "w_doc w' = (w_doc w)\<lparr>doc_stream := map_of stream_mapping (i_stream e)\<rparr>"
    "map_of stream_mapping (i_stream e) \<noteq> None"
  using assms by (auto simp: check_stream_def split: if_splits option.splits)

lemma check_group_doc:
  assumes "check_group e w = Inr w'"
  shows "\<exists>g. w_doc w' = (w_doc w)\<lparr>doc_group := g\<rparr>" "doc_group (w_doc w') \<noteq> None"
proof -
  show "\<exists>g. w_doc w' = (w_doc w)\<lparr>doc_group := g\<rparr>"
  proof (cases "doc_group (w_doc w) = None")
    case True
    then show ?thesis
      using assms by (auto simp: check_group_def split: if_splits sum.splits prod.splits)
  next
    case False
    then have "w' = w" using assms by (auto simp: check_group_def)
    then have "w_doc w' = (w_doc w)\<lparr>doc_group := doc_group (w_doc w)\<rparr>" by simp
    then show ?thesis by blast
  qed
  show "doc_group (w_doc w') \<noteq> None"
    using assms by (auto simp: check_group_def split: if_splits sum.splits prod.splits)
qed

lemma fields_settled_group: "fields_settled e (d\<lparr>doc_group := g\<rparr>) = fields_settled e d"
  by (simp add: fields_settled_def)

lemma checks_establish:
  assumes w1: "check_pages e (check_abstract e (check_title e w0)) = Inr w1"
    and w2: "check_std_level e w1 = Inr w2"
    and w3: "check_stream e (check_state w2) = Inr w3"
    and w4: "check_group e w3 = Inr w4"
  shows "fields_settled e (w_doc w4)" "doc_group (w_doc w4) \<noteq> None"
proof -
  obtain g where g: "w_doc w4 = (w_doc w3)\<lparr>doc_group := g\<rparr>"
    using check_group_doc(1)[OF w4] by blast
  have d3: "w_doc w3 = (w_doc w2)\<lparr>doc_stream := map_of stream_mapping (i_stream e)\<rparr>"
    using check_stream_doc(1)[OF w3] by (simp add: check_state_frame)
  have d2: "w_doc w2 = (w_doc w1)\<lparr>doc_std_level := map_of std_level_mapping (i_current_status e)\<rparr>"
    using check_std_level_doc(1)[OF w2] .
  have d1: "w_doc w1 = (if i_pages e = [] then w_doc (check_abstract e (check_title e w0))
      else (w_doc (check_abstract e (check_title e w0)))\<lparr>doc_pages := py_int (i_pages e)\<rparr>)"
    using check_pages_doc(1)[OF w1] .
  have "fields_settled e (w_doc w3)"
    using check_pages_doc(2)[OF w1] check_std_level_doc(2)[OF w2] check_stream_doc(2)[OF w3]
    by (simp add: fields_settled_def d3 d2 d1 check_abstract_doc check_title_doc)
  then show "fields_settled e (w_doc w4)" by (simp add: g fields_settled_group)
  show "doc_group (w_doc w4) \<noteq> None" using check_group_doc(2)[OF w4] .
qed

text \<open>a step that adds no note has changed nothing\<close>

lemma check_title_quiet:
  "w_changes (check_title e w) = [] \<Longrightarrow> w_changes w = [] \<and> check_title e w = w"
  by (auto simp: check_title_def split: if_splits)

lemma check_abstract_quiet:
  "w_changes (check_abstract e w) = [] \<Longrightarrow> w_changes w = [] \<and> check_abstract e w = w"
  by (auto simp: check_abstract_def split: if_splits)

lemma check_pages_quiet:
  "check_pages e w = Inr w' \<Longrightarrow> w_changes w' = [] \<Longrightarrow> w_changes w = [] \<and> w' = w"
  by (auto simp: check_pages_def split: if_splits option.splits)

lemma check_std_level_quiet:
  "check_std_level e w = Inr w' \<Longrightarrow> w_changes w' = [] \<Longrightarrow> w_changes w = [] \<and> w' = w"
  by (auto simp: check_std_level_def split: if_splits option.splits)

lemma check_state_quiet:
  "w_changes (check_state w) = [] \<Longrightarrow> w_changes w = [] \<and> check_state w = w"
  by (auto simp: check_state_def split: if_splits)

lemma check_stream_quiet:
  "check_stream e w = Inr w' \<Longrightarrow> w_changes w' = [] \<Longrightarrow> w_changes w = [] \<and> w' = w"
  by (auto simp: check_stream_def split: if_splits option.splits)

lemma check_group_quiet:
  assumes "check_group e w = Inr w'" "w_changes w' = []"
  shows "w_changes w = []" "group_settled (w_db w) e (w_doc w)"
proof -
  show "w_changes w = []"
    using assms by (auto simp: check_group_def split: if_splits sum.splits prod.splits)
  show "group_settled (w_db w) e (w_doc w)"
  proof (cases "doc_group (w_doc w) = None")
    case False
    then show ?thesis by (simp add: group_settled_def)
  next
    case True
    show ?thesis
    proof (cases "i_wg e \<noteq> None \<and> i_wg e \<noteq> Some []")
      case wg: True
      have False
        using assms True wg by (auto simp: check_group_def split: if_splits sum.splits prod.splits)
      then show ?thesis ..
    next
      case wg: False
      have "\<not> isl (get_one (filter (\<lambda>(acronym, type). type = ''individ'') (groups (w_db w))))"
        using assms(1) True wg by (auto simp: check_group_def split: if_splits sum.splits prod.splits)
      then show ?thesis using wg by (auto simp: group_settled_def)
    qed
  qed
qed

lemma checks_quiet:
  assumes w1: "check_pages e (check_abstract e (check_title e w0)) = Inr w1"
    and w2: "check_std_level e w1 = Inr w2"
    and w3: "check_stream e (check_state w2) = Inr w3"
    and w4: "check_group e w3 = Inr w4"
    and q: "w_changes w4 = []"
  shows "fields_settled e (w_doc w0)" "group_settled (w_db w0) e (w_doc w0)"
proof -
  have q3: "w_changes w3 = []" and g3: "group_settled (w_db w3) e (w_doc w3)"
    using check_group_quiet[OF w4 q] by simp_all
  have a: "w_changes (check_state w2) = [] \<and> w3 = check_state w2"
    using check_stream_quiet[OF w3 q3] .
  have b: "w_changes w2 = [] \<and> check_state w2 = w2"
    using check_state_quiet[of w2] a by simp
  have c: "w_changes w1 = [] \<and> w2 = w1"
    using check_std_level_quiet[OF w2] b by simp
  have d: "w_changes (check_abstract e (check_title e w0)) = [] \<and> w1 = check_abstract e (check_title e w0)"
    using check_pages_quiet[OF w1] c by simp
  have e: "w_changes (check_title e w0) = [] \<and> check_abstract e (check_title e w0) = check_title e w0"
    using check_abstract_quiet[of e "check_title e w0"] d by simp
  have f: "check_title e w0 = w0"
    using check_title_quiet[of e w0] e by simp
  have eq: "w3 = w0" using a b c d e f by simp
  obtain g where g: "w_doc w4 = (w_doc w3)\<lparr>doc_group := g\<rparr>"
    using check_group_doc(1)[OF w4] by blast
  have "fields_settled e (w_doc w4)" using w1 w2 w3 w4 by (rule checks_establish)
  then show "fields_settled e (w_doc w0)" by (simp add: g fields_settled_group eq)
  show "group_settled (w_db w0) e (w_doc w0)" using g3 by (simp add: eq)
qed

text \<open>notes are only appended\<close>

lemma changes_grow:
  "published_event now e w = Inr w' \<Longrightarrow> w_changes w' = [] \<Longrightarrow> w_changes w = []"
  "w_changes (stream_state_step uah t w) = [] \<Longrightarrow> w_changes w = []"
  "w_changes (relation_step r w x) = [] \<Longrightarrow> w_changes w = []"
  "w_changes (also_step w a) = [] \<Longrightarrow> w_changes w = []"
  "w_changes (errata_tags errata e w) = [] \<Longrightarrow> w_changes w = []"
proof -
  show "published_event now e w = Inr w' \<Longrightarrow> w_changes w' = [] \<Longrightarrow> w_changes w = []"
    by (auto simp: published_event_def Let_def split: if_splits option.splits sum.splits)
  show "w_changes (stream_state_step uah t w) = [] \<Longrightarrow> w_changes w = []"
    by (auto simp: stream_state_step_def Let_def split: if_splits option.splits)
  show "w_changes (relation_step r w x) = [] \<Longrightarrow> w_changes w = []"
    by (simp add: relation_step_def split: if_splits)
  show "w_changes (also_step w a) = [] \<Longrightarrow> w_changes w = []"
    by (simp add: also_step_def Let_def split: if_splits)
  show "w_changes (errata_tags errata e w) = [] \<Longrightarrow> w_changes w = []"
    unfolding errata_tags_def Let_def by (simp split: if_splits)
qed

lemma fold_changes_grow:
  assumes "\<And>w x. w_changes (f w x) = [] \<Longrightarrow> w_changes w = []"
  shows "w_changes (foldl f w xs) = [] \<Longrightarrow> w_changes w = []"
proof (induction xs arbitrary: w)
  case Nil
  then show ?case by simp
next
  case (Cons x xs)
  have "w_changes (f w x) = []" using Cons.IH[of "f w x"] Cons.prems by simp
  then show ?case by (rule assms)
qed

lemma late_changes_grow:
  "w_changes (stream_states uah w) = [] \<Longrightarrow> w_changes w = []"
  "w_changes (relations r l w) = [] \<Longrightarrow> w_changes w = []"
  "w_changes (also_aliases e w) = [] \<Longrightarrow> w_changes w = []"
proof -
  show "w_changes (stream_states uah w) = [] \<Longrightarrow> w_changes w = []"
    unfolding stream_states_def by (rule fold_changes_grow) (rule changes_grow(2))
  show "w_changes (relations r l w) = [] \<Longrightarrow> w_changes w = []"
    unfolding relations_def by (rule fold_changes_grow) (rule changes_grow(3))
  show "w_changes (also_aliases e w) = [] \<Longrightarrow> w_changes w = []"
    unfolding also_aliases_def by (rule fold_changes_grow) (rule changes_grow(4))
qed

lemma body_settles:
  assumes body: "index_entry_body uah now errata e s = Inr (s', y)"
    and res: "resolve_document s e = Inr w"
  shows "entry_document s' e = Some (w_name w)" "entry_settled errata s' e (w_name w)"
proof -
  from body obtain w0 w1 w2 w3 w4 w5 u v a t where
    w0: "resolve_document s e = Inr w0"
    and w1: "check_pages e (check_abstract e (check_title e w0)) = Inr w1"
    and w2: "check_std_level e w1 = Inr w2"
    and w3: "check_stream e (check_state w2) = Inr w3"
    and w4: "check_group e w3 = Inr w4"
    and w5: "published_event now e w4 = Inr w5"
    and u: "u = stream_states uah w5"
    and v: "v = relations ''updates'' (i_updates e) (relations ''obs'' (i_obsoletes e) u)"
    and a: "a = also_aliases e v"
    and t: "t = errata_tags errata e a"
    and fin: "s' = fst (finish_entry t)" "y = snd (finish_entry t)"
    and n: "w_name w1 = w_name w0" "w_name w2 = w_name w0" "w_name w3 = w_name w0" "w_name w4 = w_name w0"
    "w_name w5 = w_name w0" "w_name u = w_name w0" "w_name v = w_name w0" "w_name a = w_name w0"
    "w_name t = w_name w0"
    and d: "w_db w1 = w_db w0" "w_db w2 = w_db w0" "w_db w3 = w_db (check_state w2)" "w_db w4 = w_db w3"
    by (rule body_steps)
  have eq: "w0 = w" using w0 res by simp
  let ?n = "w_name w0"
  define v1 where "v1 = relations ''obs'' (i_obsoletes e) u"
  have nv1: "w_name v1 = ?n" by (simp add: v1_def relations_frame n)
  have v': "v = relations ''updates'' (i_updates e) v1" by (simp add: v v1_def)
  have k: "kept ?n (w_db w0) s'"
  proof -
    have k3: "kept ?n (w_db w0) (w_db w4)"
      using check_state_kept[of w2] by (simp add: d n)
    have k5: "kept ?n (w_db w4) (w_db w5)"
      using published_event_kept[OF w5] by (simp add: n)
    have ku: "kept ?n (w_db w5) (w_db u)"
      using stream_states_kept[of w5 uah] by (simp add: u n)
    have kv1: "kept ?n (w_db u) (w_db v1)"
      using relations_kept[of u "''obs''" "i_obsoletes e"] by (simp add: v1_def n)
    have kv: "kept ?n (w_db v1) (w_db v)"
      using relations_kept[of v1 "''updates''" "i_updates e"] by (simp add: v' nv1)
    have ka: "kept ?n (w_db v) (w_db a)"
      using also_aliases_kept[of v e] by (simp add: a n)
    have kt: "kept ?n (w_db a) (w_db t)"
      using errata_tags_kept[of a errata e] by (simp add: t n)
    have kf: "kept ?n (w_db t) s'"
      using finish_entry_kept[of t] by (simp add: fin n)
    show ?thesis
      using kept_trans[OF k3 kept_trans[OF k5 kept_trans[OF ku kept_trans[OF kv1
        kept_trans[OF kv kept_trans[OF ka kept_trans[OF kt kf]]]]]]] .
  qed
  have al0: "entry_document s' e = Some ?n"
    using k resolve_document_alias[OF w0] by (rule entry_document_kept)
  have "get_state (w_db w4) ?n ''draft'' = Some ''rfc''"
    using check_state_sets[of w2] by (simp add: d n)
  then have "get_state (w_db w5) ?n ''draft'' = Some ''rfc''"
    using states_frames(1)[OF w5] by (simp add: get_state_def)
  then have "states_settled (w_db u) ?n"
    using stream_states_settles[of w5 uah] by (simp add: u n)
  moreover have "doc_states s' = doc_states (w_db u)"
    by (simp add: fin t a v relations_def also_aliases_def states_frames relation_fold_states
          also_fold_states)
  ultimately have sts: "states_settled s' ?n"
    by (simp add: states_settled_def get_state_def)
  have "latest_event (w_db w5) ?n ''published_rfc''"
    using published_event_sets[OF w5] by (simp add: n)
  moreover have "kept ?n (w_db w5) s'"
  proof -
    have ku: "kept ?n (w_db w5) (w_db u)"
      using stream_states_kept[of w5 uah] by (simp add: u n)
    have kv1: "kept ?n (w_db u) (w_db v1)"
      using relations_kept[of u "''obs''" "i_obsoletes e"] by (simp add: v1_def n)
    have kv: "kept ?n (w_db v1) (w_db v)"
      using relations_kept[of v1 "''updates''" "i_updates e"] by (simp add: v' nv1)
    have ka: "kept ?n (w_db v) (w_db a)"
      using also_aliases_kept[of v e] by (simp add: a n)
    have kt: "kept ?n (w_db a) (w_db t)"
      using errata_tags_kept[of a errata e] by (simp add: t n)
    have kf: "kept ?n (w_db t) s'"
      using finish_entry_kept[of t] by (simp add: fin n)
    show ?thesis
      using kept_trans[OF ku kept_trans[OF kv1 kept_trans[OF kv kept_trans[OF ka kept_trans[OF kt kf]]]]] .
  qed
  ultimately have ev: "latest_event s' ?n ''published_rfc''"
    using latest_event_kept by blast
  have "aliases_settled (w_db a) e" unfolding a by (rule also_aliases_settles)
  moreover have "docalias s' = docalias (w_db a)"
    by (simp add: fin t finish_entry_frame errata_tags_frame)
  ultimately have al: "aliases_settled s' e" by (simp add: aliases_settled_def)
  have tags_eq: "doc_tags s' = doc_tags (w_db t)" by (simp add: fin finish_entry_frame)
  have "tags_settled errata (w_db t) e ?n"
    using errata_tags_settles[of errata e a] by (simp add: t n)
  then have tg: "tags_settled errata s' e ?n" unfolding tags_settled_def tags_eq .
  have doc_t: "w_doc t = w_doc w4"
    using published_event_frame(2)[OF w5]
    by (simp add: t a v u errata_tags_frame also_aliases_frame relations_frame stream_states_frame)
  have docs_t: "documents (w_db t) = documents (w_db w0)"
    using published_event_frame(5)[OF w5]
    by (simp add: t a v u errata_tags_frame also_aliases_frame relations_frame stream_states_frame
          d check_state_frame)
  have grp: "groups s' = groups (w_db w0)" using k by (simp add: kept_def)
  have row: "\<exists>dd. map_of (documents s') ?n = Some dd \<and> fields_settled e dd \<and> group_settled s' e dd"
  proof (cases "w_changes t \<noteq> []")
    case True
    have "documents s' = AList.update ?n (w_doc w4) (documents (w_db w0))"
      using True by (simp add: fin finish_entry_documents n doc_t docs_t)
    then have "map_of (documents s') ?n = Some (w_doc w4)" by (simp add: update_conv')
    moreover have "fields_settled e (w_doc w4)" using w1 w2 w3 w4 by (rule checks_establish)
    moreover have "group_settled s' e (w_doc w4)"
      using checks_establish(2)[OF w1 w2 w3 w4] by (simp add: group_settled_def)
    ultimately show ?thesis by blast
  next
    case False
    then have "w_changes a = []" using changes_grow(5)[of errata e a] by (simp add: t)
    then have "w_changes v = []" using late_changes_grow(3)[of e v] by (simp add: a)
    then have "w_changes v1 = []" using late_changes_grow(2)[of "''updates''" "i_updates e" v1] by (simp add: v')
    then have "w_changes u = []" using late_changes_grow(2)[of "''obs''" "i_obsoletes e" u] by (simp add: v1_def)
    then have "w_changes w5 = []" using late_changes_grow(1)[of uah w5] by (simp add: u)
    then have q: "w_changes w4 = []" using changes_grow(1)[OF w5] by simp
    have "documents s' = documents (w_db w0)"
      using False by (simp add: fin finish_entry_documents docs_t)
    then have "map_of (documents s') ?n = Some (w_doc w0)"
      using resolve_document_frame(6)[OF w0] by simp
    moreover have "fields_settled e (w_doc w0)" using w1 w2 w3 w4 q by (rule checks_quiet)
    moreover have "group_settled s' e (w_doc w0)"
      using checks_quiet(2)[OF w1 w2 w3 w4 q] by (simp add: group_settled_def grp)
    ultimately show ?thesis by blast
  qed
  show "entry_document s' e = Some (w_name w)" using al0 eq by simp
  show "entry_settled errata s' e (w_name w)"
    using row sts ev al tg eq by (auto simp: entry_settled_def)
qed

lemma body_resolves:
  assumes "index_entry_body uah now errata e s = Inr r"
  obtains w where "resolve_document s e = Inr w"
  using assms by (rule index_entry_bodyE)

lemma index_loop_step:
  assumes "index_loop uah now errata skip (e # es) s = Inr (s1, ys)" "\<not> skipped skip e"
  obtains s' y ys' where "index_entry_body uah now errata e s = Inr (s', y)"
    "index_loop uah now errata skip es s' = Inr (s1, ys')"
  using assms by (auto split: sum.splits)

lemma loop_kept_alias:
  assumes "index_loop uah now errata skip es s = Inr (s1, ys)" "entry_document s e = Some dn"
  shows "entry_document s1 e = Some dn"
  using assms
proof (induction es arbitrary: s ys)
  case Nil
  then show ?case by simp
next
  case (Cons e' es)
  show ?case
  proof (cases "skipped skip e'")
    case True
    then show ?thesis using Cons by simp
  next
    case False
    from Cons.prems(1) False obtain s' y ys' where
      b: "index_entry_body uah now errata e' s = Inr (s', y)"
      and l: "index_loop uah now errata skip es s' = Inr (s1, ys')"
      by (rule index_loop_step)
    from b obtain w where r: "resolve_document s e' = Inr w" by (rule body_resolves)
    have "entry_document s' e = Some dn"
      using body_kept[OF b r] Cons.prems(2) by (rule entry_document_kept)
    then show ?thesis using Cons.IH[OF l] by simp
  qed
qed

lemma loop_preserves:
  assumes "index_loop uah now errata skip es s = Inr (s1, ys)"
    and "entry_document s e = Some dn"
    and "entry_settled errata s e dn"
    and "\<forall>e' \<in> set es. \<not> skipped skip e' \<longrightarrow> entry_document s1 e' \<noteq> Some dn"
  shows "entry_settled errata s1 e dn"
  using assms
proof (induction es arbitrary: s ys)
  case Nil
  then show ?case by simp
next
  case (Cons e' es)
  have rest: "\<forall>x \<in> set es. \<not> skipped skip x \<longrightarrow> entry_document s1 x \<noteq> Some dn"
    using Cons.prems(4) by simp
  show ?case
  proof (cases "skipped skip e'")
    case True
    then have "index_loop uah now errata skip es s = Inr (s1, ys)" using Cons.prems(1) by simp
    then show ?thesis using Cons.prems(2,3) rest by (rule Cons.IH)
  next
    case False
    from Cons.prems(1) False obtain s' y ys' where
      b: "index_entry_body uah now errata e' s = Inr (s', y)"
      and l: "index_loop uah now errata skip es s' = Inr (s1, ys')"
      by (rule index_loop_step)
    from b obtain w where r: "resolve_document s e' = Inr w" by (rule body_resolves)
    have "entry_document s' e' = Some (w_name w)" using b r by (rule body_settles(1))
    then have "entry_document s1 e' = Some (w_name w)" using l by (rule loop_kept_alias[rotated])
    moreover have "entry_document s1 e' \<noteq> Some dn" using Cons.prems(4) False by simp
    ultimately have ne: "dn \<noteq> w_name w" by auto
    have k: "kept (w_name w) s s'" using b r by (rule body_kept)
    have d': "entry_document s' e = Some dn" using k Cons.prems(2) by (rule entry_document_kept)
    have st': "entry_settled errata s' e dn" using Cons.prems(3) k ne by (rule entry_settled_kept)
    show ?thesis using l d' st' rest by (rule Cons.IH)
  qed
qed

lemma loop_settles:
  assumes "index_loop uah now errata skip es s = Inr (s1, ys)"
    and "distinct (map (entry_document s1) (filter (\<lambda>e. \<not> skipped skip e) es))"
  shows "\<forall>e \<in> set es. \<not> skipped skip e \<longrightarrow>
           (\<exists>dn. entry_document s1 e = Some dn \<and> entry_settled errata s1 e dn)"
  using assms
proof (induction es arbitrary: s ys)
  case Nil
  show ?case by simp
next
  case (Cons e es)
  show ?case
  proof (cases "skipped skip e")
    case True
    then have l: "index_loop uah now errata skip es s = Inr (s1, ys)" using Cons.prems(1) by simp
    have d: "distinct (map (entry_document s1) (filter (\<lambda>e. \<not> skipped skip e) es))"
      using Cons.prems(2) True by simp
    show ?thesis using Cons.IH[OF l d] True by simp
  next
    case False
    from Cons.prems(1) False obtain s' y ys' where
      b: "index_entry_body uah now errata e s = Inr (s', y)"
      and l: "index_loop uah now errata skip es s' = Inr (s1, ys')"
      by (rule index_loop_step)
    from b obtain w where r: "resolve_document s e = Inr w" by (rule body_resolves)
    have d: "distinct (map (entry_document s1) (filter (\<lambda>e. \<not> skipped skip e) es))"
      and fresh: "entry_document s1 e \<notin> set (map (entry_document s1) (filter (\<lambda>e. \<not> skipped skip e) es))"
      using Cons.prems(2) False by simp_all
    have a': "entry_document s' e = Some (w_name w)" using b r by (rule body_settles(1))
    have st': "entry_settled errata s' e (w_name w)" using b r by (rule body_settles(2))
    have a1: "entry_document s1 e = Some (w_name w)" using l a' by (rule loop_kept_alias)
    have others: "\<forall>e' \<in> set es. \<not> skipped skip e' \<longrightarrow> entry_document s1 e' \<noteq> Some (w_name w)"
      using fresh a1 by (force simp: image_iff)
    have st1: "entry_settled errata s1 e (w_name w)" using l a' st' others by (rule loop_preserves)
    show ?thesis using Cons.IH[OF l d] a1 st1 by simp
  qed
qed

text \<open>
  C1 (amended): a first run has returned the database \<open>s1\<close>. When the entries that are not
  skipped name pairwise different documents in \<open>s1\<close>, and every alias that their
  \<open>obsoletes\<close> and \<open>updates\<close> identifiers name in \<open>s1\<close> has its edge, a second run with the
  same entries, errata records and cut-off date, at any time, returns the database \<open>s1\<close>
  unchanged and yields nothing.
\<close>

theorem second_run_yields_nothing:
  assumes first: "update_docs_from_rfc_index uah now index_data errata_data skip s = Inr (s1, ys)"
    and docs: "distinct (map (entry_document s1) (filter (\<lambda>e. \<not> skipped skip e) index_data))"
    and edges: "\<forall>e \<in> set index_data. \<not> skipped skip e \<longrightarrow> relations_settled s1 e"
  shows "update_docs_from_rfc_index uah' now' index_data errata_data skip s1 = Inr (s1, [])"
proof -
  have "\<forall>e \<in> set index_data. \<not> skipped skip e \<longrightarrow>
           (\<exists>dn. entry_document s1 e = Some dn \<and> entry_settled (group_errata errata_data) s1 e dn)"
    using first docs unfolding update_docs_from_rfc_index_def by (rule loop_settles)
  then have "\<forall>e \<in> set index_data. \<not> skipped skip e \<longrightarrow>
      (\<exists>dn. entry_document s1 e = Some dn \<and> entry_settled (group_errata errata_data) s1 e dn)
      \<and> relations_settled s1 e"
    using edges by blast
  then show ?thesis unfolding update_docs_from_rfc_index_def by (rule settled_loop)
qed

text \<open>when the body returns\<close>

lemma body_succeeds:
  assumes res: "resolve_document s e = Inr w0"
    and pages: "i_pages e = [] \<or> py_int (i_pages e) \<noteq> None"
    and level: "map_of std_level_mapping (i_current_status e) \<noteq> None"
    and stream: "map_of stream_mapping (i_stream e) \<noteq> None"
    and grp: "doc_group (w_doc w0) \<noteq> None
        \<or> (if i_wg e \<noteq> None \<and> i_wg e \<noteq> Some []
            then \<not> isl (get_one (filter (\<lambda>(acronym, type). Some acronym = i_wg e) (groups s)))
            else \<not> isl (get_one (filter (\<lambda>(acronym, type). type = ''individ'') (groups s))))"
    and pub: "latest_event s (w_name w0) ''published_rfc''
        \<or> (\<exists>t. synthesize_time 60 (i_rfc_published_date e) now = Some (Inr t))"
  shows "\<exists>r. index_entry_body uah now errata e s = Inr r"
proof -
  define a where "a = check_abstract e (check_title e w0)"
  have a: "w_db a = w_db w0" "w_name a = w_name w0" "doc_group (w_doc a) = doc_group (w_doc w0)"
    by (simp_all add: a_def check_title_def check_abstract_def)
  have "\<exists>w1. check_pages e a = Inr w1"
    using pages by (auto simp: check_pages_def split: option.splits)
  then obtain w1 where w1: "check_pages e a = Inr w1" by blast
  have g1: "doc_group (w_doc w1) = doc_group (w_doc w0)"
    using w1 a(3) by (auto simp: check_pages_def split: if_splits option.splits)
  have "\<exists>w2. check_std_level e w1 = Inr w2"
    using level by (auto simp: check_std_level_def split: option.splits)
  then obtain w2 where w2: "check_std_level e w1 = Inr w2" by blast
  have g2: "doc_group (w_doc w2) = doc_group (w_doc w0)"
    using w2 g1 by (auto simp: check_std_level_def split: if_splits option.splits)
  have "\<exists>w3. check_stream e (check_state w2) = Inr w3"
    using stream by (auto simp: check_stream_def split: option.splits)
  then obtain w3 where w3: "check_stream e (check_state w2) = Inr w3" by blast
  have g3: "doc_group (w_doc w3) = doc_group (w_doc w0)"
    using w3 g2 by (auto simp: check_stream_def check_state_frame split: if_splits option.splits)
  have d1: "w_db w1 = w_db w0" "w_name w1 = w_name w0"
    using check_pages_frame(1,2)[OF w1] a by simp_all
  have d2: "w_db w2 = w_db w0" "w_name w2 = w_name w0"
    using check_std_level_frame(1,2)[OF w2] d1 by simp_all
  have d3: "w_db w3 = w_db (check_state w2)" "w_name w3 = w_name w0"
    using check_stream_frame(1,2)[OF w3] d2 by (simp_all add: check_state_frame)
  have gr3: "groups (w_db w3) = groups s"
    using resolve_document_frame(5)[OF res] by (simp add: d3 d2 check_state_def set_state_def)
  obtain w4 where w4: "check_group e w3 = Inr w4"
  proof (cases "doc_group (w_doc w3) = None")
    case False
    then have "check_group e w3 = Inr w3" by (auto simp: check_group_def)
    then show ?thesis by (rule that)
  next
    case True
    then have "if i_wg e \<noteq> None \<and> i_wg e \<noteq> Some []
            then \<not> isl (get_one (filter (\<lambda>(acronym, type). Some acronym = i_wg e) (groups s)))
            else \<not> isl (get_one (filter (\<lambda>(acronym, type). type = ''individ'') (groups s)))"
      using grp g3 by simp
    then have "\<exists>w4. check_group e w3 = Inr w4"
      using True by (auto simp: check_group_def gr3 split: sum.splits prod.splits if_splits)
    then show ?thesis using that by blast
  qed
  have d4: "w_db w4 = w_db w3" "w_name w4 = w_name w0"
    using check_group_frame(1,2)[OF w4] d3 by simp_all
  have ev4: "docevents (w_db w4) = docevents s"
    using resolve_document_frame(4)[OF res] by (simp add: d4 d3 d2 check_state_def set_state_def)
  obtain w5 where w5: "published_event now e w4 = Inr w5"
  proof (cases "latest_event (w_db w4) (w_name w4) ''published_rfc''")
    case True
    then have "published_event now e w4 = Inr w4" by (simp add: published_event_def)
    then show ?thesis by (rule that)
  next
    case False
    then have "\<not> latest_event s (w_name w0) ''published_rfc''"
      by (simp add: latest_event_def ev4 d4(2))
    then obtain t where "synthesize_time 60 (i_rfc_published_date e) now = Some (Inr t)"
      using pub by blast
    then have "\<exists>w5. published_event now e w4 = Inr w5"
      using False by (simp add: published_event_def Let_def)
    then show ?thesis using that by blast
  qed
  show ?thesis
    using res w1 w2 w3 w4 w5
    by (simp add: index_entry_body_def and_then_def a_def)
qed

text \<open>with no identifier in \<open>also\<close> the aliases are those that the lookup left\<close>

lemma body_aliases:
  assumes body: "index_entry_body uah now errata e s = Inr (s', y)"
    and res: "resolve_document s e = Inr w"
    and none: "i_also e = []"
  shows "docalias s' = docalias (w_db w)"
proof -
  from body obtain w0 w1 w2 w3 w4 w5 u v a t where
    w0: "resolve_document s e = Inr w0"
    and w1: "check_pages e (check_abstract e (check_title e w0)) = Inr w1"
    and w2: "check_std_level e w1 = Inr w2"
    and w3: "check_stream e (check_state w2) = Inr w3"
    and w4: "check_group e w3 = Inr w4"
    and w5: "published_event now e w4 = Inr w5"
    and u: "u = stream_states uah w5"
    and v: "v = relations ''updates'' (i_updates e) (relations ''obs'' (i_obsoletes e) u)"
    and a: "a = also_aliases e v"
    and t: "t = errata_tags errata e a"
    and fin: "s' = fst (finish_entry t)" "y = snd (finish_entry t)"
    and n: "w_name w1 = w_name w0" "w_name w2 = w_name w0" "w_name w3 = w_name w0" "w_name w4 = w_name w0"
    "w_name w5 = w_name w0" "w_name u = w_name w0" "w_name v = w_name w0" "w_name a = w_name w0"
    "w_name t = w_name w0"
    and d: "w_db w1 = w_db w0" "w_db w2 = w_db w0" "w_db w3 = w_db (check_state w2)" "w_db w4 = w_db w3"
    by (rule body_steps)
  have eq: "w0 = w" using w0 res by simp
  have "a = v" by (simp add: a also_aliases_def none)
  then show ?thesis
    using published_event_frame(6)[OF w5]
    by (simp add: fin t finish_entry_frame errata_tags_frame v relations_frame u stream_states_frame
          d check_state_frame eq[symmetric])
qed

lemma no_relations: "relations r [] w = w"
  by (simp add: relations_def parse_relation_list_def)

lemma body_no_relations:
  assumes body: "index_entry_body uah now errata e s = Inr (s', y)"
    and none: "i_obsoletes e = []" "i_updates e = []"
  shows "relateddocument s' = relateddocument s"
proof -
  from body obtain w0 w1 w2 w3 w4 w5 u v a t where
    w0: "resolve_document s e = Inr w0"
    and w1: "check_pages e (check_abstract e (check_title e w0)) = Inr w1"
    and w2: "check_std_level e w1 = Inr w2"
    and w3: "check_stream e (check_state w2) = Inr w3"
    and w4: "check_group e w3 = Inr w4"
    and w5: "published_event now e w4 = Inr w5"
    and u: "u = stream_states uah w5"
    and v: "v = relations ''updates'' (i_updates e) (relations ''obs'' (i_obsoletes e) u)"
    and a: "a = also_aliases e v"
    and t: "t = errata_tags errata e a"
    and fin: "s' = fst (finish_entry t)" "y = snd (finish_entry t)"
    and n: "w_name w1 = w_name w0" "w_name w2 = w_name w0" "w_name w3 = w_name w0" "w_name w4 = w_name w0"
    "w_name w5 = w_name w0" "w_name u = w_name w0" "w_name v = w_name w0" "w_name a = w_name w0"
    "w_name t = w_name w0"
    and d: "w_db w1 = w_db w0" "w_db w2 = w_db w0" "w_db w3 = w_db (check_state w2)" "w_db w4 = w_db w3"
    by (rule body_steps)
  have "v = u" by (simp add: v none no_relations)
  then show ?thesis
    using published_event_frame(3)[OF w5] resolve_document_frame(1)[OF w0]
    by (simp add: fin t a finish_entry_frame errata_tags_frame also_aliases_frame u stream_states_frame
          d check_state_frame)
qed

text \<open>an entry whose fields, states and event are in place: the body is the later steps\<close>

lemma settled_front:
  assumes doc: "entry_document s e = Some dn"
    and row: "map_of (documents s) dn = Some d"
    and f: "fields_settled e d"
    and g: "doc_group d \<noteq> None"
    and sts: "states_settled s dn"
    and ev: "latest_event s dn ''published_rfc''"
  shows "index_entry_body uah now errata e s =
           Inr (finish_entry (errata_tags errata e (also_aliases e
             (relations ''updates'' (i_updates e) (relations ''obs'' (i_obsoletes e)
               \<lparr>w_db = s, w_name = dn, w_doc = d, w_changes = [], w_events = [],
                w_rfc_published = False\<rparr>)))))"
proof -
  define w0 where "w0 = \<lparr>w_db = s, w_name = dn, w_doc = d, w_changes = [], w_events = [],
      w_rfc_published = False\<rparr>"
  have w0: "w_db w0 = s" "w_name w0 = dn" "w_doc w0 = d" "w_changes w0 = []"
    by (simp_all add: w0_def)
  have r: "resolve_document s e = Inr w0"
    unfolding w0_def using doc row by (rule resolve_document_known)
  have f0: "fields_settled e (w_doc w0)" using f by (simp add: w0)
  have s0: "states_settled (w_db w0) (w_name w0)" using sts by (simp add: w0)
  have c1: "check_pages e (check_abstract e (check_title e w0)) = Inr w0"
    by (simp add: fields_noop[OF f0])
  have c2: "check_std_level e w0 = Inr w0" by (rule fields_noop[OF f0])
  have c3: "check_stream e (check_state w0) = Inr w0"
    by (simp add: check_state_noop[OF s0] fields_noop[OF f0])
  have c4: "check_group e w0 = Inr w0" using g by (auto simp: check_group_def w0)
  have c5: "published_event now e w0 = Inr w0"
    by (rule published_event_noop) (simp add: w0 ev)
  have c6: "stream_states uah w0 = w0"
    by (rule stream_states_noop) (simp add: w0 sts)
  show ?thesis
    by (simp add: index_entry_body_def and_then_def r c1 c2 c3 c4 c5 c6 w0_def[symmetric])
qed

lemma relation_targets_cong:
  assumes "docalias s = docalias s'"
  shows "parse_relation_list s l = parse_relation_list s' l"
  unfolding parse_relation_list_def relation_targets_def assms by (rule refl)

text \<open>evaluation of the examples\<close>

lemma ex_name: "str_of_int 7 = ''7''" "str_of_int 9 = ''9''"
  by (simp_all add: str_of_int_def digit_char_def)

lemma ex_key: "fmt_04d 7 = ''0007''"
  by (simp add: fmt_04d_def digit_char_def Let_def numeral_3_eq_3)

lemma ex_resolve: "resolve_document (index_db tgs) (rfc_entry 7 t a p obs als) = Inr (w_rfc7 tgs)"
  by (simp add: resolve_document_def rfc_entry_def ex_name index_db_def w_rfc7_def Let_def)

lemma ex_checks:
  "check_pages (rfc_entry 7 ''New title'' [] [] obs als)
     (check_abstract (rfc_entry 7 ''New title'' [] [] obs als)
       (check_title (rfc_entry 7 ''New title'' [] [] obs als) (w_rfc7 tgs))) = Inr (w_titled tgs)"
  by (simp add: check_pages_def check_abstract_def check_title_def rfc_entry_def w_rfc7_def
        published_doc_def w_titled_def)

lemma ex_std_level: "check_std_level (rfc_entry 7 t a p obs als) (w_titled tgs) = Inr (w_titled tgs)"
  by (simp add: check_std_level_def std_level_mapping_def rfc_entry_def w_titled_def w_rfc7_def
        published_doc_def)

lemma ex_state: "check_state (w_titled tgs) = w_titled tgs"
  by (simp add: check_state_def get_state_def w_titled_def w_rfc7_def index_db_def)

lemma ex_stream: "check_stream (rfc_entry 7 t a p obs als) (w_titled tgs) = Inr (w_titled tgs)"
  by (simp add: check_stream_def stream_mapping_def rfc_entry_def w_titled_def w_rfc7_def
        published_doc_def)

lemma ex_group: "check_group (rfc_entry 7 t a p obs als) (w_titled tgs) = Inr (w_titled tgs)"
  by (simp add: check_group_def w_titled_def w_rfc7_def published_doc_def)

lemma ex_published: "published_event now (rfc_entry 7 t a p obs als) (w_titled tgs) = Inr (w_titled tgs)"
  by (simp add: published_event_def latest_event_def w_titled_def w_rfc7_def index_db_def)

lemma ex_stream_states: "stream_states uah (w_titled tgs) = w_titled tgs"
  by (simp add: stream_states_def stream_state_step_def get_state_def w_titled_def w_rfc7_def
        index_db_def)

lemma ex_no_aliases: "also_aliases (rfc_entry n t a p obs []) w = w"
  by (simp add: also_aliases_def rfc_entry_def)

lemma ex_lists:
  "i_updates (rfc_entry n t a p obs als) = []" "i_obsoletes (rfc_entry n t a p obs als) = obs"
  "i_also (rfc_entry n t a p obs als) = als"
  by (simp_all add: rfc_entry_def)

lemma ex_body:
  "index_entry_body uah now errata (rfc_entry 7 ''New title'' [] [] obs []) (index_db tgs)
     = Inr (finish_entry (errata_tags errata (rfc_entry 7 ''New title'' [] [] obs [])
               (relations ''obs'' obs (w_titled tgs))))"
  by (simp add: index_entry_body_def and_then_def ex_resolve ex_checks ex_std_level ex_state ex_stream
        ex_group ex_published ex_stream_states no_relations ex_no_aliases ex_lists)

lemma ex_lower: "py_lower ''RFC5'' = ''rfc5''" "py_lower ''RFC9'' = ''rfc9''"
  by (simp_all add: py_lower_def lower_char_def upper_letters_def lower_letters_def)

lemma ex_targets: "parse_relation_list (index_db tgs) [''RFC5''] = [''rfc5'']"
  by (simp add: parse_relation_list_def relation_targets_def ex_lower index_db_def)

lemma ex_relations:
  "relateddocument (w_db (relations ''obs'' [''RFC5''] (w_titled tgs))) = [(''rfc7'', ''rfc5'', ''obs'')]"
proof -
  have "w_db (w_titled tgs) = index_db tgs" "w_name (w_titled tgs) = ''rfc7''"
    by (simp_all add: w_titled_def w_rfc7_def)
  moreover have "relateddocument (index_db tgs) = []" by (simp add: index_db_def)
  ultimately show ?thesis
    by (simp add: relations_def ex_targets relation_step_def)
qed

lemma ex_errata_none:
  "errata_tags (group_errata []) (rfc_entry 7 t a p obs als) (w_titled [''errata'']) = w_titled [''errata'']"
  by (simp add: errata_tags_def group_errata_def rfc_entry_def w_titled_def w_rfc7_def index_db_def)

lemma relations_run_value:
  "relations_run = Inr (fst (finish_entry (errata_tags (group_errata [])
        (rfc_entry 7 ''New title'' [] [] [''RFC5''] []) (relations ''obs'' [''RFC5''] (w_titled [''errata''])))),
      (case snd (finish_entry (errata_tags (group_errata [])
        (rfc_entry 7 ''New title'' [] [] [''RFC5''] []) (relations ''obs'' [''RFC5''] (w_titled [''errata''])))) of
         None \<Rightarrow> [] | Some x \<Rightarrow> [x]))"
  by (simp add: relations_run_def update_docs_from_rfc_index_def skipped_def ex_body
        split: prod.splits)

lemma relations_run_first:
  "update_docs_from_rfc_index no_holders example_now
       [rfc_entry 7 ''New title'' [] [] [''RFC5''] []] [] None (index_db [''errata''])
      = Inr (fst (projr relations_run), snd (projr relations_run))"
  by (simp add: relations_run_value relations_run_def[symmetric])

lemma relations_run_edges:
  "relateddocument (fst (projr relations_run)) = [(''rfc7'', ''rfc5'', ''obs'')]"
  by (simp add: relations_run_value finish_entry_frame errata_tags_frame ex_relations)

lemma relations_run_aliases:
  "docalias (fst (projr relations_run)) = docalias (index_db [''errata''])"
  by (simp add: relations_run_value finish_entry_frame errata_tags_frame relations_frame
        w_titled_def w_rfc7_def)

text \<open>
  The hypotheses of C3 hold for \<open>rfc7\<close>, tagged \<open>errata\<close>: with one verified erratum it
  ends with both tags; with one rejected erratum it ends with neither, and the note names
  the reason.
\<close>

theorem errata_tags_reconciled_witness:
  "resolve_document (index_db [''errata'']) (rfc_entry 7 ''New title'' [] [] [] []) = Inr (w_rfc7 [''errata''])
   \<and> \<not> isl verified_run
   \<and> ''errata'' \<in> set (doc_tags (fst (projr verified_run)) ''rfc7'')
   \<and> ''verified-errata'' \<in> set (doc_tags (fst (projr verified_run)) ''rfc7'')
   \<and> \<not> isl rejected_run
   \<and> ''errata'' \<in> set (doc_tags (index_db [''errata'']) ''rfc7'')
   \<and> ''errata'' \<notin> set (doc_tags (fst (projr rejected_run)) ''rfc7'')
   \<and> ''verified-errata'' \<notin> set (doc_tags (fst (projr rejected_run)) ''rfc7'')
   \<and> Removed_errata_tag_all_rejected \<in> set (fst (the (snd (projr rejected_run))))"
proof -
  have bv: "index_entry_body no_holders example_now
      (group_errata [\<lparr>doc_id = ''RFC0007'', errata_status_code = ''Verified''\<rparr>])
      (rfc_entry 7 ''New title'' [] [] [] []) (index_db [''errata''])
      = Inr (fst (projr verified_run), snd (projr verified_run))"
    by (simp add: verified_run_def ex_body)
  have br: "index_entry_body no_holders example_now
      (group_errata [\<lparr>doc_id = ''RFC0007'', errata_status_code = ''Rejected''\<rparr>])
      (rfc_entry 7 ''New title'' [] [] [] []) (index_db [''errata''])
      = Inr (fst (projr rejected_run), snd (projr rejected_run))"
    by (simp add: rejected_run_def ex_body)
  have ok: "\<not> isl verified_run" "\<not> isl rejected_run"
    by (simp_all add: verified_run_def rejected_run_def ex_body)
  have nm: "w_name (w_rfc7 [''errata'']) = ''rfc7''" by (simp add: w_rfc7_def)
  have before: "''errata'' \<in> set (doc_tags (index_db [''errata'']) ''rfc7'')" by (simp add: index_db_def)
  note v = errata_tags_reconciled[OF bv ex_resolve refl refl refl]
  note r = errata_tags_reconciled[OF br ex_resolve refl refl refl]
  have v': "''errata'' \<in> set (doc_tags (fst (projr verified_run)) ''rfc7'')
      \<and> ''verified-errata'' \<in> set (doc_tags (fst (projr verified_run)) ''rfc7'')"
    using v by (simp add: rfc_entry_def ex_key nm)
  have r': "''errata'' \<notin> set (doc_tags (fst (projr rejected_run)) ''rfc7'')
      \<and> ''verified-errata'' \<notin> set (doc_tags (fst (projr rejected_run)) ''rfc7'')
      \<and> Removed_errata_tag_all_rejected \<in> set (fst (the (snd (projr rejected_run))))"
    using r before by (auto simp: rfc_entry_def ex_key nm)
  show ?thesis using ex_resolve ok before v' r' by simp
qed

lemma ex_states7: "states_settled (index_db tgs) ''rfc7''"
  by (simp add: states_settled_def get_state_def index_db_def)

lemma ex_event7: "latest_event (index_db tgs) ''rfc7'' ''published_rfc''"
  by (simp add: latest_event_def index_db_def)

lemma no_targets: "parse_relation_list s [] = []"
  by (simp add: parse_relation_list_def)

lemma unflagged_facts:
  "\<not> i_has_errata ((rfc_entry 7 ''Old title'' [] [] [] [])\<lparr>i_has_errata := False\<rparr>)"
  "\<not> isl unflagged_run"
  "doc_tags (fst (projr unflagged_run)) ''rfc7'' = []"
proof -
  let ?e = "(rfc_entry 7 ''Old title'' [] [] [] [])\<lparr>i_has_errata := False\<rparr>"
  let ?er = "group_errata [\<lparr>doc_id = ''RFC0007'', errata_status_code = ''Verified''\<rparr>]"
  show "\<not> i_has_errata ?e" by simp
  have doc: "entry_document (index_db []) ?e = Some ''rfc7''"
    by (simp add: entry_document_def rfc_entry_def ex_name index_db_def)
  have st: "entry_settled ?er (index_db []) ?e ''rfc7''"
  proof -
    have "map_of (documents (index_db [])) ''rfc7'' = Some published_doc"
      by (simp add: index_db_def)
    moreover have "fields_settled ?e published_doc"
      by (simp add: fields_settled_def rfc_entry_def published_doc_def std_level_mapping_def
            stream_mapping_def)
    moreover have "group_settled (index_db []) ?e published_doc"
      by (simp add: group_settled_def published_doc_def)
    moreover have "aliases_settled (index_db []) ?e"
      by (simp add: aliases_settled_def rfc_entry_def)
    moreover have "tags_settled ?er (index_db []) ?e ''rfc7''"
      by (simp add: tags_settled_def index_db_def)
    ultimately show ?thesis
      using ex_states7 ex_event7 by (simp add: entry_settled_def)
  qed
  have lists: "i_obsoletes ?e = []" "i_updates ?e = []" by (simp_all add: rfc_entry_def)
  have rel: "relations_settled (index_db []) ?e"
    by (simp add: relations_settled_def lists no_targets split: option.splits)
  have run: "unflagged_run = Inr (index_db [], None)"
    unfolding unflagged_run_def using doc st rel by (rule settled_noop)
  show "\<not> isl unflagged_run" by (simp add: run)
  show "doc_tags (fst (projr unflagged_run)) ''rfc7'' = []" by (simp add: run index_db_def)
qed

text \<open>
  C3 as stated fails. The document \<open>rfc7\<close> carries \<open>verified-errata\<close> alone, the feed
  reports errata and the one erratum on record is rejected: the tag is removed, and the
  notes are \<open>changed title\<close> and \<open>removed Verified Errata tag\<close>, with no word of the
  reason. When the feed reports errata and no erratum is on record, so that every
  record on file is rejected, the document ends with the tag \<open>errata\<close>. And when the
  feed reports no errata, a document with one verified erratum on record ends with neither
  tag.
\<close>

theorem errata_tags_counterexample:
  "i_has_errata (rfc_entry 7 ''New title'' [] [] [] [])
   \<and> doc_tags (index_db [''verified-errata'']) ''rfc7'' = [''verified-errata'']
   \<and> doc_tags (fst (projr verified_only_run)) ''rfc7'' = []
   \<and> snd (projr verified_only_run)
       = Some ([Changed_title ''New title'', Removed_verified_errata_tag], ''rfc7'', False)
   \<and> doc_tags (index_db []) ''rfc7'' = []
   \<and> doc_tags (fst (projr no_records_run)) ''rfc7'' = [''errata'']
   \<and> \<not> i_has_errata ((rfc_entry 7 ''Old title'' [] [] [] [])\<lparr>i_has_errata := False\<rparr>)
   \<and> \<not> isl unflagged_run
   \<and> doc_tags (fst (projr unflagged_run)) ''rfc7'' = []"
proof -
  have ea: "errata_tags (group_errata [\<lparr>doc_id = ''RFC0007'', errata_status_code = ''Rejected''\<rparr>])
      (rfc_entry 7 ''New title'' [] [] [] []) (w_titled [''verified-errata''])
      = (w_titled [''verified-errata''])
          \<lparr>w_db := tags_remove ''rfc7'' [''verified-errata''] (index_db [''verified-errata'']),
            w_changes := [Changed_title ''New title'', Removed_verified_errata_tag]\<rparr>"
    by (simp add: errata_tags_def group_errata_def rfc_entry_def ex_key w_titled_def w_rfc7_def
          index_db_def)
  have eb: "errata_tags (group_errata []) (rfc_entry 7 ''New title'' [] [] [] []) (w_titled [])
      = (w_titled [])\<lparr>w_db := tags_add ''rfc7'' ''errata'' (index_db []),
            w_changes := [Changed_title ''New title'', Added_errata_tag]\<rparr>"
    by (simp add: errata_tags_def group_errata_def rfc_entry_def ex_key w_titled_def w_rfc7_def
          index_db_def tags_add_def)
  have a: "verified_only_run = Inr (finish_entry ((w_titled [''verified-errata''])
      \<lparr>w_db := tags_remove ''rfc7'' [''verified-errata''] (index_db [''verified-errata'']),
        w_changes := [Changed_title ''New title'', Removed_verified_errata_tag]\<rparr>))"
    by (simp add: verified_only_run_def ex_body no_relations ea)
  have b: "no_records_run = Inr (finish_entry ((w_titled [])
      \<lparr>w_db := tags_add ''rfc7'' ''errata'' (index_db []),
        w_changes := [Changed_title ''New title'', Added_errata_tag]\<rparr>))"
    by (simp add: no_records_run_def ex_body no_relations eb)
  have 1: "i_has_errata (rfc_entry 7 ''New title'' [] [] [] [])" by (simp add: rfc_entry_def)
  have 2: "doc_tags (index_db [''verified-errata'']) ''rfc7'' = [''verified-errata'']"
    "doc_tags (index_db []) ''rfc7'' = []"
    by (simp_all add: index_db_def)
  have 3: "doc_tags (fst (projr verified_only_run)) ''rfc7'' = []"
    by (simp add: a finish_entry_frame tags_remove_def index_db_def)
  have 4: "snd (projr verified_only_run)
       = Some ([Changed_title ''New title'', Removed_verified_errata_tag], ''rfc7'', False)"
    by (simp add: a finish_entry_def w_titled_def w_rfc7_def Let_def)
  have 5: "doc_tags (fst (projr no_records_run)) ''rfc7'' = [''errata'']"
    by (simp add: b finish_entry_frame tags_add_def index_db_def)
  show ?thesis using 1 2 3 4 5 unflagged_facts by simp
qed

text \<open>
  C10: the body of the loop has processed an entry whose document is named by \<open>w_name w0\<close>.
  When the abstract of the entry is the empty string, the row of the document has the
  abstract that it had before, and no note \<open>changed abstract\<close> is yielded; when the page
  count of the entry is the empty string, the row has the page count that it had before,
  and no note \<open>changed pages\<close> is yielded. An abstract that is not empty is the abstract
  of the row afterwards, and a page count that is not empty is a number, which is the page
  count of the row afterwards.
\<close>

theorem empty_values_keep_fields:
  assumes body: "index_entry_body uah now errata e s = Inr (s', y)"
    and res: "resolve_document s e = Inr w0"
  shows "(i_abstract e = [] \<longrightarrow>
            (\<forall>d0. map_of (documents s) (w_name w0) = Some d0 \<longrightarrow>
               (\<exists>d. map_of (documents s') (w_name w0) = Some d \<and> doc_abstract d = doc_abstract d0))
          \<and> (\<forall>changes n p a. y = Some (changes, n, p) \<longrightarrow> Changed_abstract a \<notin> set changes))
       \<and> (i_pages e = [] \<longrightarrow>
            (\<forall>d0. map_of (documents s) (w_name w0) = Some d0 \<longrightarrow>
               (\<exists>d. map_of (documents s') (w_name w0) = Some d \<and> doc_pages d = doc_pages d0))
          \<and> (\<forall>changes n p k. y = Some (changes, n, p) \<longrightarrow> Changed_pages k \<notin> set changes))
       \<and> (i_abstract e \<noteq> [] \<longrightarrow>
            (\<exists>d. map_of (documents s') (w_name w0) = Some d \<and> doc_abstract d = i_abstract e))
       \<and> (i_pages e \<noteq> [] \<longrightarrow>
            (\<exists>d k. map_of (documents s') (w_name w0) = Some d \<and> py_int (i_pages e) = Some k
                \<and> doc_pages d = Some k))"
proof -
  note old = empty_values_kept[OF body res]
  have "entry_settled errata s' e (w_name w0)" using body res by (rule body_settles(2))
  then obtain d where row: "map_of (documents s') (w_name w0) = Some d" and f: "fields_settled e d"
    by (auto simp: entry_settled_def split: option.splits)
  have A: "i_abstract e \<noteq> [] \<longrightarrow>
            (\<exists>d. map_of (documents s') (w_name w0) = Some d \<and> doc_abstract d = i_abstract e)"
    using row f by (auto simp: fields_settled_def)
  have P: "i_pages e \<noteq> [] \<longrightarrow>
            (\<exists>d k. map_of (documents s') (w_name w0) = Some d \<and> py_int (i_pages e) = Some k
                \<and> doc_pages d = Some k)"
    using row f by (auto simp: fields_settled_def)
  show ?thesis
    by (rule conjI[OF conjunct1[OF old] conjI[OF conjunct2[OF old] conjI[OF A P]]])
qed

text \<open>
  The hypotheses of C10 hold for an entry for \<open>rfc7\<close> with an empty abstract and page
  count and a new title: the title is stored, the abstract and the page count are kept.
\<close>

theorem empty_values_keep_fields_witness:
  "resolve_document (index_db [''errata'']) (rfc_entry 7 ''New title'' [] [] [] []) = Inr (w_rfc7 [''errata''])
   \<and> i_abstract (rfc_entry 7 ''New title'' [] [] [] []) = []
   \<and> i_pages (rfc_entry 7 ''New title'' [] [] [] []) = []
   \<and> map_of (documents (index_db [''errata''])) ''rfc7'' = Some published_doc
   \<and> \<not> isl empty_fields_run
   \<and> snd (projr empty_fields_run) = Some ([Changed_title ''New title''], ''rfc7'', False)
   \<and> doc_title (the (map_of (documents (fst (projr empty_fields_run))) ''rfc7'')) = ''New title''
   \<and> doc_abstract (the (map_of (documents (fst (projr empty_fields_run))) ''rfc7'')) = ''Kept abstract''
   \<and> doc_pages (the (map_of (documents (fst (projr empty_fields_run))) ''rfc7'')) = Some 10"
proof -
  have run: "empty_fields_run = Inr (finish_entry (w_titled [''errata'']))"
    by (simp add: empty_fields_run_def ex_body no_relations ex_errata_none)
  have b: "index_entry_body no_holders example_now (group_errata [])
      (rfc_entry 7 ''New title'' [] [] [] []) (index_db [''errata''])
      = Inr (fst (projr empty_fields_run), snd (projr empty_fields_run))"
    by (simp add: run empty_fields_run_def[symmetric])
  have nm: "w_name (w_rfc7 [''errata'']) = ''rfc7''" by (simp add: w_rfc7_def)
  have e: "i_abstract (rfc_entry 7 ''New title'' [] [] [] []) = []"
    "i_pages (rfc_entry 7 ''New title'' [] [] [] []) = []"
    by (simp_all add: rfc_entry_def)
  have row: "map_of (documents (index_db [''errata''])) ''rfc7'' = Some published_doc"
    by (simp add: index_db_def)
  have y: "snd (projr empty_fields_run) = Some ([Changed_title ''New title''], ''rfc7'', False)"
    by (simp add: run finish_entry_def w_titled_def w_rfc7_def Let_def)
  have t: "doc_title (the (map_of (documents (fst (projr empty_fields_run))) ''rfc7'')) = ''New title''"
    by (simp add: run finish_entry_documents w_titled_def w_rfc7_def index_db_def)
  have k: "doc_abstract (the (map_of (documents (fst (projr empty_fields_run))) ''rfc7'')) = ''Kept abstract''
      \<and> doc_pages (the (map_of (documents (fst (projr empty_fields_run))) ''rfc7'')) = Some 10"
    using empty_values_keep_fields[OF b ex_resolve] e row
    by (auto simp: nm published_doc_def)
  have ok: "\<not> isl empty_fields_run" by (simp add: run)
  show ?thesis using ex_resolve e row ok y t k by simp
qed

text \<open>
  The hypotheses of C6 hold for the run whose entry for \<open>rfc7\<close> obsoletes \<open>RFC5\<close>: one
  edge is created.
\<close>

theorem relations_created_once_witness:
  "\<not> isl relations_run
   \<and> distinct (relateddocument (index_db [''errata'']))
   \<and> (w_name (w_titled [''errata'']), ''rfc5'', ''obs'') \<notin> set (relateddocument (w_db (w_titled [''errata''])))
   \<and> relateddocument (fst (projr relations_run)) = [(''rfc7'', ''rfc5'', ''obs'')]
   \<and> distinct (relateddocument (fst (projr relations_run)))
   \<and> count_list (relateddocument (w_db (relation_step ''obs''
        (relation_step ''obs'' (w_titled [''errata'']) ''rfc5'') ''rfc5'')))
        (w_name (w_titled [''errata'']), ''rfc5'', ''obs'') = 1"
proof -
  have d: "distinct (relateddocument (index_db [''errata'']))" by (simp add: index_db_def)
  have n: "(w_name (w_titled [''errata'']), ''rfc5'', ''obs'') \<notin> set (relateddocument (w_db (w_titled [''errata''])))"
    by (simp add: w_titled_def w_rfc7_def index_db_def)
  have ok: "\<not> isl relations_run" by (simp add: relations_run_value)
  note t = relations_created_once[OF relations_run_first, of "''obs''" "w_titled [''errata'']" "''rfc5''"]
  have c: "count_list (relateddocument (w_db (relation_step ''obs''
        (relation_step ''obs'' (w_titled [''errata'']) ''rfc5'') ''rfc5'')))
        (w_name (w_titled [''errata'']), ''rfc5'', ''obs'') = 1"
    using t n by blast
  have d': "distinct (relateddocument (fst (projr relations_run)))"
    using t d by blast
  show ?thesis using ok d n relations_run_edges d' c by blast
qed

lemma ex_document7: "entry_document (index_db tgs) (rfc_entry 7 t a p obs als) = Some ''rfc7''"
  by (simp add: entry_document_def rfc_entry_def ex_name index_db_def)

lemma ex_fields7: "fields_settled (rfc_entry 7 ''Old title'' [] [] obs als) published_doc"
  by (simp add: fields_settled_def rfc_entry_def published_doc_def std_level_mapping_def
        stream_mapping_def)

lemma ex_tags7: "tags_settled (group_errata []) (index_db [''errata'']) (rfc_entry 7 t a p obs als) ''rfc7''"
  by (simp add: tags_settled_def group_errata_def rfc_entry_def index_db_def)

lemma ex_settled7:
  "entry_settled (group_errata []) (index_db [''errata'']) (rfc_entry 7 ''Old title'' [] [] obs []) ''rfc7''"
proof -
  have "map_of (documents (index_db [''errata''])) ''rfc7'' = Some published_doc"
    by (simp add: index_db_def)
  moreover have "group_settled (index_db [''errata'']) (rfc_entry 7 ''Old title'' [] [] obs []) published_doc"
    by (simp add: group_settled_def published_doc_def)
  moreover have "aliases_settled (index_db [''errata'']) (rfc_entry 7 ''Old title'' [] [] obs [])"
    by (simp add: aliases_settled_def rfc_entry_def)
  ultimately show ?thesis
    using ex_fields7 ex_states7 ex_event7 ex_tags7 by (simp add: entry_settled_def)
qed

lemma tags_settled_cong:
  assumes "doc_tags s' dn = doc_tags s dn"
  shows "tags_settled errata s' e dn = tags_settled errata s e dn"
  unfolding tags_settled_def assms by (rule refl)

lemma ex_no_targets: "parse_relation_list (index_db tgs) [''RFC9''] = []"
  by (simp add: parse_relation_list_def relation_targets_def ex_lower index_db_def)

lemma ex_body7:
  "index_entry_body uah now (group_errata []) (rfc_entry 7 ''Old title'' [] [] [''RFC9''] [])
     (index_db [''errata'']) = Inr (index_db [''errata''], None)"
proof (rule settled_noop)
  show "entry_document (index_db [''errata'']) (rfc_entry 7 ''Old title'' [] [] [''RFC9''] []) = Some ''rfc7''"
    by (rule ex_document7)
  show "entry_settled (group_errata []) (index_db [''errata''])
      (rfc_entry 7 ''Old title'' [] [] [''RFC9''] []) ''rfc7''"
    by (rule ex_settled7)
  show "relations_settled (index_db [''errata'']) (rfc_entry 7 ''Old title'' [] [] [''RFC9''] [])"
    by (simp add: relations_settled_def ex_document7 ex_lists ex_no_targets no_targets)
qed

lemma ex_resolve9: "resolve_document (index_db tgs) (rfc_entry 9 t a p obs als) = Inr (w_rfc9 tgs)"
  by (simp add: resolve_document_def rfc_entry_def ex_name index_db_def w_rfc9_def Let_def)

lemma ex_time:
  "synthesize_time 60 (2024, 3, 1) example_now = Some (Inr \<lparr>dt_date = (2024, 3, 31), dt_micro = 5\<rparr>)"
  unfolding example_now_def by code_simp

lemma ex_body9:
  "\<exists>r. index_entry_body uah example_now errata (rfc_entry 9 ''Nine'' [] [] [] []) (index_db tgs) = Inr r"
proof (rule body_succeeds[OF ex_resolve9])
  show "i_pages (rfc_entry 9 ''Nine'' [] [] [] []) = [] \<or> py_int (i_pages (rfc_entry 9 ''Nine'' [] [] [] [])) \<noteq> None"
    by (simp add: rfc_entry_def)
  show "map_of std_level_mapping (i_current_status (rfc_entry 9 ''Nine'' [] [] [] [])) \<noteq> None"
    by (simp add: rfc_entry_def std_level_mapping_def)
  show "map_of stream_mapping (i_stream (rfc_entry 9 ''Nine'' [] [] [] [])) \<noteq> None"
    by (simp add: rfc_entry_def stream_mapping_def)
  show "doc_group (w_doc (w_rfc9 tgs)) \<noteq> None
        \<or> (if i_wg (rfc_entry 9 ''Nine'' [] [] [] []) \<noteq> None \<and> i_wg (rfc_entry 9 ''Nine'' [] [] [] []) \<noteq> Some []
            then \<not> isl (get_one (filter (\<lambda>(acronym, type). Some acronym = i_wg (rfc_entry 9 ''Nine'' [] [] [] []))
                   (groups (index_db tgs))))
            else \<not> isl (get_one (filter (\<lambda>(acronym, type). type = ''individ'') (groups (index_db tgs)))))"
    by (simp add: rfc_entry_def index_db_def get_one_def)
  show "latest_event (index_db tgs) (w_name (w_rfc9 tgs)) ''published_rfc''
        \<or> (\<exists>t. synthesize_time 60 (i_rfc_published_date (rfc_entry 9 ''Nine'' [] [] [] [])) example_now = Some (Inr t))"
    by (simp add: rfc_entry_def ex_time)
qed

lemma forward_first_value:
  "forward_first = Inr (fst (projr (index_entry_body no_holders example_now (group_errata [])
        (rfc_entry 9 ''Nine'' [] [] [] []) (index_db [''errata'']))),
      (case snd (projr (index_entry_body no_holders example_now (group_errata [])
        (rfc_entry 9 ''Nine'' [] [] [] []) (index_db [''errata'']))) of None \<Rightarrow> [] | Some x \<Rightarrow> [x]))"
proof -
  obtain r where r: "index_entry_body no_holders example_now (group_errata [])
        (rfc_entry 9 ''Nine'' [] [] [] []) (index_db [''errata'']) = Inr r"
    using ex_body9 by blast
  show ?thesis
    by (simp add: forward_first_def forward_index_def update_docs_from_rfc_index_def skipped_def
          ex_body7 r split: prod.splits)
qed

lemma forward_counterexample_facts:
  "\<not> isl forward_first"
  "relateddocument (fst (projr forward_first)) = []"
  "\<not> isl forward_second"
  "snd (projr forward_second) = [([Created_relation ''obs'' ''rfc7'' ''rfc9''], ''rfc7'', False)]"
  "relateddocument (fst (projr forward_second)) = [(''rfc7'', ''rfc9'', ''obs'')]"
proof -
  let ?a7 = "rfc_entry 7 ''Old title'' [] [] [''RFC9''] []"
  let ?a9 = "rfc_entry 9 ''Nine'' [] [] [] []"
  let ?s0 = "index_db [''errata'']"
  let ?er = "group_errata []"
  obtain r where r: "index_entry_body no_holders example_now ?er ?a9 ?s0 = Inr r"
    using ex_body9 by blast
  define s1 where "s1 = fst r"
  define y1 where "y1 = snd r"
  have b9: "index_entry_body no_holders example_now ?er ?a9 ?s0 = Inr (s1, y1)"
    by (simp add: r s1_def y1_def)
  have first: "forward_first = Inr (s1, (case y1 of None \<Rightarrow> [] | Some x \<Rightarrow> [x]))"
    by (simp add: forward_first_value r s1_def y1_def)
  have s1: "fst (projr forward_first) = s1" by (simp add: first)
  show "\<not> isl forward_first" by (simp add: first)
  have al1: "docalias s1 = docalias (w_db (w_rfc9 [''errata'']))"
    using b9 ex_resolve9 by (rule body_aliases) (simp add: ex_lists)
  have rel1: "relateddocument s1 = []"
    using body_no_relations[OF b9] by (simp add: ex_lists index_db_def)
  show "relateddocument (fst (projr forward_first)) = []" by (simp add: s1 rel1)
  have k9: "kept ''rfc9'' ?s0 s1"
    using body_kept[OF b9 ex_resolve9] by (simp add: w_rfc9_def)
  have d7: "entry_document s1 ?a7 = Some ''rfc7''"
    using k9 ex_document7 by (rule entry_document_kept)
  have st7: "entry_settled ?er s1 ?a7 ''rfc7''"
    using ex_settled7 k9 by (rule entry_settled_kept) simp
  have row7: "map_of (documents s1) ''rfc7'' = Some published_doc"
    using k9 by (simp add: kept_def index_db_def)
  have parts: "states_settled s1 ''rfc7''" "latest_event s1 ''rfc7'' ''published_rfc''"
    "tags_settled ?er s1 ?a7 ''rfc7''"
    using st7 by (simp_all add: entry_settled_def row7)
  define w0 where "w0 = \<lparr>w_db = s1, w_name = ''rfc7'', w_doc = published_doc, w_changes = [],
      w_events = [], w_rfc_published = False\<rparr>"
  have front: "index_entry_body no_holders example_now ?er ?a7 s1 =
      Inr (finish_entry (errata_tags ?er ?a7 (also_aliases ?a7
        (relations ''updates'' (i_updates ?a7) (relations ''obs'' (i_obsoletes ?a7) w0)))))"
    unfolding w0_def
    by (rule settled_front[OF d7 row7 ex_fields7 _ parts(1) parts(2)]) (simp add: published_doc_def)
  have tg: "parse_relation_list s1 [''RFC9''] = [''rfc9'']"
  proof -
    have "parse_relation_list s1 [''RFC9''] = parse_relation_list (w_db (w_rfc9 [''errata''])) [''RFC9'']"
      using al1 by (rule relation_targets_cong)
    also have "\<dots> = [''rfc9'']"
      by (simp add: parse_relation_list_def relation_targets_def ex_lower w_rfc9_def index_db_def)
    finally show ?thesis .
  qed
  define v where "v = w0\<lparr>w_db := s1\<lparr>relateddocument := [(''rfc7'', ''rfc9'', ''obs'')]\<rparr>,
      w_changes := [Created_relation ''obs'' ''rfc7'' ''rfc9'']\<rparr>"
  have rv: "relations ''obs'' [''RFC9''] w0 = v"
    by (simp add: relations_def w0_def tg relation_step_def rel1 v_def)
  have v: "w_db v = s1\<lparr>relateddocument := [(''rfc7'', ''rfc9'', ''obs'')]\<rparr>" "w_name v = ''rfc7''"
    "w_changes v = [Created_relation ''obs'' ''rfc7'' ''rfc9'']" "w_rfc_published v = False"
    by (simp_all add: v_def w0_def)
  have "doc_tags (w_db v) (w_name v) = doc_tags s1 (w_name v)" by (simp add: v)
  then have "tags_settled ?er (w_db v) ?a7 (w_name v) = tags_settled ?er s1 ?a7 (w_name v)"
    by (rule tags_settled_cong)
  then have "tags_settled ?er (w_db v) ?a7 (w_name v)" using parts(3) by (simp add: v(2))
  then have ev: "errata_tags ?er ?a7 v = v" by (rule errata_tags_noop)
  define s2 where "s2 = fst (finish_entry v)"
  have b7: "index_entry_body no_holders example_now ?er ?a7 s1
      = Inr (s2, Some ([Created_relation ''obs'' ''rfc7'' ''rfc9''], ''rfc7'', False))"
    by (simp add: front ex_lists rv no_relations ex_no_aliases ev s2_def finish_entry_def v Let_def)
  have rel2: "relateddocument s2 = [(''rfc7'', ''rfc9'', ''obs'')]"
    by (simp add: s2_def finish_entry_frame v)
  have r7: "resolve_document s1 ?a7 = Inr w0"
    unfolding w0_def using d7 row7 by (rule resolve_document_known)
  have k7: "kept ''rfc7'' s1 s2"
    using body_kept[OF b7 r7] by (simp add: w0_def)
  have d9: "entry_document s1 ?a9 = Some ''rfc9''"
    using body_settles(1)[OF b9 ex_resolve9] by (simp add: w_rfc9_def)
  have st9: "entry_settled ?er s1 ?a9 ''rfc9''"
    using body_settles(2)[OF b9 ex_resolve9] by (simp add: w_rfc9_def)
  have d9': "entry_document s2 ?a9 = Some ''rfc9''"
    using k7 d9 by (rule entry_document_kept)
  have st9': "entry_settled ?er s2 ?a9 ''rfc9''"
    using st9 k7 by (rule entry_settled_kept) simp
  have rs9: "relations_settled s2 ?a9"
    by (simp add: relations_settled_def d9' ex_lists no_targets)
  have b9': "index_entry_body no_holders example_now ?er ?a9 s2 = Inr (s2, None)"
    using d9' st9' rs9 by (rule settled_noop)
  have second: "forward_second = Inr (s2, [([Created_relation ''obs'' ''rfc7'' ''rfc9''], ''rfc7'', False)])"
    by (simp add: forward_second_def s1 forward_index_def update_docs_from_rfc_index_def skipped_def
          b7 b9')
  show "\<not> isl forward_second" by (simp add: second)
  show "snd (projr forward_second) = [([Created_relation ''obs'' ''rfc7'' ''rfc9''], ''rfc7'', False)]"
    by (simp add: second)
  show "relateddocument (fst (projr forward_second)) = [(''rfc7'', ''rfc9'', ''obs'')]"
    by (simp add: second rel2)
qed

lemma entry_document_cong:
  assumes "docalias s' = docalias s"
  shows "entry_document s' e = entry_document s e"
  unfolding entry_document_def assms by (rule refl)

lemma retitle_step:
  assumes doc: "entry_document s e = Some dn"
    and row: "map_of (documents s) dn = Some d"
    and f: "fields_settled e (d\<lparr>doc_title := i_title e\<rparr>)"
    and ne: "doc_title d \<noteq> i_title e"
    and g: "doc_group d \<noteq> None"
    and sts: "states_settled s dn"
    and ev: "latest_event s dn ''published_rfc''"
    and rel: "relations_settled s e"
    and al: "aliases_settled s e"
    and tg: "tags_settled errata s e dn"
  shows "\<exists>s'. index_entry_body uah now errata e s = Inr (s', Some ([Changed_title (i_title e)], dn, False))
           \<and> docalias s' = docalias s
           \<and> map_of (documents s') dn = Some (d\<lparr>doc_title := i_title e\<rparr>)
           \<and> doc_states s' = doc_states s
           \<and> doc_tags s' = doc_tags s
           \<and> (\<exists>extra. docevents s' = docevents s @ extra)"
proof -
  define w0 where "w0 = \<lparr>w_db = s, w_name = dn, w_doc = d, w_changes = [], w_events = [],
      w_rfc_published = False\<rparr>"
  define w where "w = w0\<lparr>w_doc := d\<lparr>doc_title := i_title e\<rparr>, w_changes := [Changed_title (i_title e)]\<rparr>"
  have w: "w_db w = s" "w_name w = dn" "w_doc w = d\<lparr>doc_title := i_title e\<rparr>"
    "w_changes w = [Changed_title (i_title e)]" "w_rfc_published w = False"
    by (simp_all add: w_def w0_def)
  have r: "resolve_document s e = Inr w0"
    unfolding w0_def using doc row by (rule resolve_document_known)
  have t: "check_title e w0 = w" using ne by (simp add: check_title_def w0_def w_def)
  have fw: "fields_settled e (w_doc w)" using f by (simp add: w)
  have sw: "states_settled (w_db w) (w_name w)" using sts by (simp add: w)
  have c1: "check_pages e (check_abstract e (check_title e w0)) = Inr w"
    by (simp add: t fields_noop[OF fw])
  have c2: "check_std_level e w = Inr w" by (rule fields_noop[OF fw])
  have c3: "check_stream e (check_state w) = Inr w"
    by (simp add: check_state_noop[OF sw] fields_noop[OF fw])
  have c4: "check_group e w = Inr w" using g by (auto simp: check_group_def w)
  have c5: "published_event now e w = Inr w"
    by (rule published_event_noop) (simp add: w ev)
  have c6: "stream_states uah w = w"
    by (rule stream_states_noop) (simp add: w sts)
  have rel': "(\<forall>x \<in> set (parse_relation_list s (i_obsoletes e)). (dn, x, ''obs'') \<in> set (relateddocument s))
        \<and> (\<forall>x \<in> set (parse_relation_list s (i_updates e)). (dn, x, ''updates'') \<in> set (relateddocument s))"
    using rel doc by (simp add: relations_settled_def)
  have c7: "relations ''obs'' (i_obsoletes e) w = w"
    unfolding relations_def by (rule relation_fold_noop) (simp add: w rel')
  have c8: "relations ''updates'' (i_updates e) w = w"
    unfolding relations_def by (rule relation_fold_noop) (simp add: w rel')
  have c9: "also_aliases e w = w"
    unfolding also_aliases_def by (rule also_fold_noop) (use al in \<open>simp add: w aliases_settled_def\<close>)
  have c10: "errata_tags errata e w = w"
    by (rule errata_tags_noop) (simp add: w tg)
  have body: "index_entry_body uah now errata e s = Inr (finish_entry w)"
    by (simp add: index_entry_body_def and_then_def r c1 c2 c3 c4 c5 c6 c7 c8 c9 c10)
  have y: "finish_entry w = (fst (finish_entry w), Some ([Changed_title (i_title e)], dn, False))"
    by (simp add: finish_entry_def w Let_def)
  have a: "docalias (fst (finish_entry w)) = docalias s" by (simp add: finish_entry_frame w)
  have b: "map_of (documents (fst (finish_entry w))) dn = Some (d\<lparr>doc_title := i_title e\<rparr>)"
    by (simp add: finish_entry_documents w update_conv')
  have c: "doc_states (fst (finish_entry w)) = doc_states s" by (simp add: states_frames w)
  have d: "doc_tags (fst (finish_entry w)) = doc_tags s" by (simp add: finish_entry_frame w)
  have e: "\<exists>extra. docevents (fst (finish_entry w)) = docevents s @ extra"
    using finish_entry_kept[of w] by (simp add: kept_def w)
  show ?thesis using body y a b c d e by metis
qed

lemma repeated_step:
  assumes a: "docalias s = docalias (index_db [''errata''])"
    and b: "map_of (documents s) ''rfc7'' = Some (published_doc\<lparr>doc_title := T\<rparr>)"
    and c: "doc_states s = doc_states (index_db [''errata''])"
    and d: "doc_tags s = doc_tags (index_db [''errata''])"
    and e: "latest_event s ''rfc7'' ''published_rfc''"
    and ne: "T \<noteq> T'"
  shows "\<exists>s'. index_entry_body uah now (group_errata []) (rfc_entry 7 T' [] [] [] []) s
             = Inr (s', Some ([Changed_title T'], ''rfc7'', False))
           \<and> docalias s' = docalias (index_db [''errata''])
           \<and> map_of (documents s') ''rfc7'' = Some (published_doc\<lparr>doc_title := T'\<rparr>)
           \<and> doc_states s' = doc_states (index_db [''errata''])
           \<and> doc_tags s' = doc_tags (index_db [''errata''])
           \<and> latest_event s' ''rfc7'' ''published_rfc''"
proof -
  let ?e = "rfc_entry 7 T' [] [] [] []"
  have t: "i_title ?e = T'" by (simp add: rfc_entry_def)
  have doc: "entry_document s ?e = Some ''rfc7''"
    using entry_document_cong[OF a, of ?e] by (simp add: ex_document7)
  have f: "fields_settled ?e (published_doc\<lparr>doc_title := T\<rparr>\<lparr>doc_title := i_title ?e\<rparr>)"
    by (simp add: fields_settled_def rfc_entry_def published_doc_def std_level_mapping_def
          stream_mapping_def)
  have n: "doc_title (published_doc\<lparr>doc_title := T\<rparr>) \<noteq> i_title ?e" using ne by (simp add: t)
  have g: "doc_group (published_doc\<lparr>doc_title := T\<rparr>) \<noteq> None" by (simp add: published_doc_def)
  have sts: "states_settled s ''rfc7''"
    using ex_states7[of "[''errata'']"] by (simp add: states_settled_def get_state_def c)
  have rel: "relations_settled s ?e" by (simp add: relations_settled_def doc ex_lists no_targets)
  have al: "aliases_settled s ?e" by (simp add: aliases_settled_def ex_lists)
  have "doc_tags s ''rfc7'' = doc_tags (index_db [''errata'']) ''rfc7''" by (simp add: d)
  then have "tags_settled (group_errata []) s ?e ''rfc7''
      = tags_settled (group_errata []) (index_db [''errata'']) ?e ''rfc7''"
    by (rule tags_settled_cong)
  then have tg: "tags_settled (group_errata []) s ?e ''rfc7''" by (simp add: ex_tags7)
  from retitle_step[OF doc b f n g sts e rel al tg, of uah now]
  obtain s' where s': "index_entry_body uah now (group_errata []) ?e s
             = Inr (s', Some ([Changed_title (i_title ?e)], ''rfc7'', False))"
    "docalias s' = docalias s"
    "map_of (documents s') ''rfc7'' = Some (published_doc\<lparr>doc_title := T\<rparr>\<lparr>doc_title := i_title ?e\<rparr>)"
    "doc_states s' = doc_states s" "doc_tags s' = doc_tags s"
    "\<exists>extra. docevents s' = docevents s @ extra"
    by blast
  have ev': "latest_event s' ''rfc7'' ''published_rfc''"
    using s'(6) e by (auto simp: latest_event_def)
  show ?thesis
    using s'(1,2,3,4,5) ev' by (auto simp: t a c d)
qed

lemma repeated_facts:
  "\<not> isl repeated_first"
  "\<not> isl repeated_second"
  "snd (projr repeated_second)
     = [([Changed_title ''New title''], ''rfc7'', False), ([Changed_title ''Old title''], ''rfc7'', False)]"
proof -
  let ?s0 = "index_db [''errata'']"
  let ?n = "rfc_entry 7 ''New title'' [] [] [] []"
  let ?o = "rfc_entry 7 ''Old title'' [] [] [] []"
  have b0: "map_of (documents ?s0) ''rfc7'' = Some (published_doc\<lparr>doc_title := ''Old title''\<rparr>)"
    by (simp add: index_db_def published_doc_def)
  from repeated_step[OF refl b0 refl refl ex_event7, of "''New title''" no_holders example_now]
  obtain sa where sa: "index_entry_body no_holders example_now (group_errata []) ?n ?s0
             = Inr (sa, Some ([Changed_title ''New title''], ''rfc7'', False))"
    "docalias sa = docalias ?s0"
    "map_of (documents sa) ''rfc7'' = Some (published_doc\<lparr>doc_title := ''New title''\<rparr>)"
    "doc_states sa = doc_states ?s0" "doc_tags sa = doc_tags ?s0"
    "latest_event sa ''rfc7'' ''published_rfc''"
    by auto
  from repeated_step[OF sa(2,3,4,5,6), of "''Old title''" no_holders example_now]
  obtain s1 where s1: "index_entry_body no_holders example_now (group_errata []) ?o sa
             = Inr (s1, Some ([Changed_title ''Old title''], ''rfc7'', False))"
    "docalias s1 = docalias ?s0"
    "map_of (documents s1) ''rfc7'' = Some (published_doc\<lparr>doc_title := ''Old title''\<rparr>)"
    "doc_states s1 = doc_states ?s0" "doc_tags s1 = doc_tags ?s0"
    "latest_event s1 ''rfc7'' ''published_rfc''"
    by auto
  from repeated_step[OF s1(2,3,4,5,6), of "''New title''" no_holders example_now]
  obtain sb where sb: "index_entry_body no_holders example_now (group_errata []) ?n s1
             = Inr (sb, Some ([Changed_title ''New title''], ''rfc7'', False))"
    "docalias sb = docalias ?s0"
    "map_of (documents sb) ''rfc7'' = Some (published_doc\<lparr>doc_title := ''New title''\<rparr>)"
    "doc_states sb = doc_states ?s0" "doc_tags sb = doc_tags ?s0"
    "latest_event sb ''rfc7'' ''published_rfc''"
    by auto
  from repeated_step[OF sb(2,3,4,5,6), of "''Old title''" no_holders example_now]
  obtain s2 where s2: "index_entry_body no_holders example_now (group_errata []) ?o sb
             = Inr (s2, Some ([Changed_title ''Old title''], ''rfc7'', False))"
    by auto
  have first: "repeated_first = Inr (s1, [([Changed_title ''New title''], ''rfc7'', False),
      ([Changed_title ''Old title''], ''rfc7'', False)])"
    by (simp add: repeated_first_def repeated_index_def update_docs_from_rfc_index_def skipped_def
          sa(1) s1(1))
  have second: "repeated_second = Inr (s2, [([Changed_title ''New title''], ''rfc7'', False),
      ([Changed_title ''Old title''], ''rfc7'', False)])"
    by (simp add: repeated_second_def first repeated_index_def update_docs_from_rfc_index_def
          skipped_def sb(1) s2(1))
  show "\<not> isl repeated_first" by (simp add: first)
  show "\<not> isl repeated_second" by (simp add: second)
  show "snd (projr repeated_second)
     = [([Changed_title ''New title''], ''rfc7'', False), ([Changed_title ''Old title''], ''rfc7'', False)]"
    by (simp add: second)
qed

text \<open>
  C1 as stated fails. The index lists \<open>rfc7\<close>, which obsoletes \<open>RFC9\<close>, and then \<open>rfc9\<close>,
  which the database does not know. The first run finds no alias \<open>rfc9\<close> when it handles
  \<open>rfc7\<close> and creates no edge; it then creates the document and the alias \<open>rfc9\<close>. The
  second run, on the same entries, finds the alias, creates the edge and yields the note
  \<open>created obs relation between rfc7 and rfc9\<close>. And when the index has two entries for
  \<open>rfc7\<close> with different titles, each run stores the first title and then the second,
  so the second run yields both notes again.
\<close>

theorem second_run_counterexample:
  "\<not> isl forward_first
   \<and> relateddocument (fst (projr forward_first)) = []
   \<and> \<not> isl forward_second
   \<and> snd (projr forward_second) = [([Created_relation ''obs'' ''rfc7'' ''rfc9''], ''rfc7'', False)]
   \<and> relateddocument (fst (projr forward_second)) = [(''rfc7'', ''rfc9'', ''obs'')]
   \<and> \<not> isl repeated_first
   \<and> \<not> isl repeated_second
   \<and> snd (projr repeated_second)
       = [([Changed_title ''New title''], ''rfc7'', False), ([Changed_title ''Old title''], ''rfc7'', False)]"
  using forward_counterexample_facts repeated_facts by simp

text \<open>
  The hypotheses of C1 hold after the run whose entry for \<open>rfc7\<close> obsoletes \<open>RFC5\<close>, known
  to the database: the second run yields nothing.
\<close>

theorem second_run_yields_nothing_witness:
  "\<not> isl relations_run
   \<and> entry_document (fst (projr relations_run)) (rfc_entry 7 ''New title'' [] [] [''RFC5''] []) = Some ''rfc7''
   \<and> \<not> skipped None (rfc_entry 7 ''New title'' [] [] [''RFC5''] [])
   \<and> relations_settled (fst (projr relations_run)) (rfc_entry 7 ''New title'' [] [] [''RFC5''] [])
   \<and> relateddocument (fst (projr relations_run)) = [(''rfc7'', ''rfc5'', ''obs'')]
   \<and> update_docs_from_rfc_index no_holders example_now
        [rfc_entry 7 ''New title'' [] [] [''RFC5''] []] [] None (fst (projr relations_run))
       = Inr (fst (projr relations_run), [])"
proof -
  let ?e = "rfc_entry 7 ''New title'' [] [] [''RFC5''] []"
  let ?s1 = "fst (projr relations_run)"
  have ok: "\<not> isl relations_run" by (simp add: relations_run_value)
  have d: "entry_document ?s1 ?e = Some ''rfc7''"
    by (simp add: entry_document_def relations_run_aliases rfc_entry_def ex_name index_db_def)
  have sk: "\<not> skipped None ?e" by (simp add: skipped_def)
  have tg: "parse_relation_list ?s1 [''RFC5''] = [''rfc5'']"
    using relation_targets_cong[OF relations_run_aliases, of "[''RFC5'']"] by (simp add: ex_targets)
  have rs: "relations_settled ?s1 ?e"
    by (simp add: relations_settled_def d ex_lists tg no_targets relations_run_edges)
  have docs: "distinct (map (entry_document ?s1) (filter (\<lambda>e. \<not> skipped None e) [?e]))"
    by simp
  have edges: "\<forall>e \<in> set [?e]. \<not> skipped None e \<longrightarrow> relations_settled ?s1 e"
    using rs by simp
  have again: "update_docs_from_rfc_index no_holders example_now [?e] [] None ?s1 = Inr (?s1, [])"
    using relations_run_first docs edges by (rule second_run_yields_nothing)
  show ?thesis using ok d sk rs relations_run_edges again by simp
qed

section \<open>Properties of the outbound notifier\<close>

text \<open>
  C2, evaluated on the code: for a response with status 200 and body \<open>OK\<close> the function
  returns the pair of two empty strings, since the response text is never stored in the
  variable that is returned; the claim expects the pair \<open>("OK", "")\<close>.
\<close>

theorem post_approved_draft_success_returns_empty_text:
  "post_approved_draft url name (Response 200 ''OK'') = ('''', '''')"
  by (simp add: post_approved_draft_def post_try_block_def)

end
